theory Spec2Isabelle
  imports Main "HOL-Library.Sublist" "HOL-Library.AList"
begin

section \<open>Python strings\<close>

text \<open>
  A Python \<open>str\<close> is modelled as a \<open>string\<close>, a list of 8-bit characters: the model
  covers text whose code points are below 256. The operations below are the ones
  \<open>pyhdlsim.py\<close> applies to strings, with Python's semantics.
\<close>

text \<open>\<open>str.isspace\<close> on one character, for code points below 256.\<close>

definition isspace :: "char \<Rightarrow> bool" where
  "isspace c = ((of_char c :: nat) \<in> set [9, 10, 11, 12, 13, 28, 29, 30, 31, 32, 133, 160])"

text \<open>\<open>s.strip()\<close>: leading and trailing whitespace removed.\<close>

definition strip :: "string \<Rightarrow> string" where
  "strip s = rev (dropWhile isspace (rev (dropWhile isspace s)))"

text \<open>\<open>sub in s\<close>: \<open>sub\<close> occurs in \<open>s\<close> as a contiguous run of characters.\<close>

fun str_in :: "string \<Rightarrow> string \<Rightarrow> bool" where
  "str_in sub [] = (sub = [])"
| "str_in sub (c # cs) = (prefix sub (c # cs) \<or> str_in sub cs)"

text \<open>
  \<open>s.replace(old, new)\<close>: every non-overlapping occurrence of \<open>old\<close>, found from the
  left, is replaced. An empty \<open>old\<close> matches before every character and at the end.
\<close>

function replace_from :: "string \<Rightarrow> string \<Rightarrow> string \<Rightarrow> string" where
  "replace_from old new [] = []"
| "replace_from old new (c # cs) =
     (if old \<noteq> [] \<and> prefix old (c # cs)
      then new @ replace_from old new (drop (length old) (c # cs))
      else c # replace_from old new cs)"
  by pat_completeness auto
termination
  by (relation "measure (\<lambda>(old, new, s). length s)") (auto simp: neq_Nil_conv)

definition replace :: "string \<Rightarrow> string \<Rightarrow> string \<Rightarrow> string" where
  "replace old new s =
     (if old = [] then concat (map (\<lambda>c. new @ [c]) s) @ new else replace_from old new s)"

text \<open>
  \<open>s.split(sep)\<close> for a one-character separator: the pieces between the separators,
  empty pieces included; a string without the separator gives the one-element list.
\<close>

fun split_on :: "char \<Rightarrow> string \<Rightarrow> string list" where
  "split_on sep [] = [[]]"
| "split_on sep (c # cs) =
     (if c = sep then [] # split_on sep cs
      else (case split_on sep cs of
              [] \<Rightarrow> [[c]]
            | w # ws \<Rightarrow> (c # w) # ws))"

text \<open>
  \<open>s.split()\<close>: the maximal runs of non-whitespace characters. The first argument is
  the word being read.
\<close>

fun split_ws_from :: "string \<Rightarrow> string \<Rightarrow> string list" where
  "split_ws_from w [] = (if w = [] then [] else [w])"
| "split_ws_from w (c # cs) =
     (if isspace c then (if w = [] then [] else [w]) @ split_ws_from [] cs
      else split_ws_from (w @ [c]) cs)"

definition split_ws :: "string \<Rightarrow> string list" where
  "split_ws s = split_ws_from [] s"

text \<open>\<open>sep.join(xs)\<close>.\<close>

fun join :: "string \<Rightarrow> string list \<Rightarrow> string" where
  "join sep [] = []"
| "join sep [x] = x"
| "join sep (x # y # ys) = x @ sep @ join sep (y # ys)"

text \<open>\<open>s.rfind(c)\<close> for a character: the highest index holding \<open>c\<close>, or \<open>-1\<close>.\<close>

definition rfind :: "char \<Rightarrow> string \<Rightarrow> int" where
  "rfind c s = (case filter (\<lambda>i. s ! i = c) (rev [0..<length s]) of
                  [] \<Rightarrow> - 1
                | i # _ \<Rightarrow> int i)"

text \<open>
  \<open>'%x' % d\<close> for a Python integer: lowercase hexadecimal digits, most significant
  first, with a minus sign before the digits of a negative number.
\<close>

definition hex_digit :: "nat \<Rightarrow> char" where
  "hex_digit n = ''0123456789abcdef'' ! n"

function hex_nat :: "nat \<Rightarrow> string" where
  "hex_nat n = (if n < 16 then [hex_digit n] else hex_nat (n div 16) @ [hex_digit (n mod 16)])"
  by pat_completeness auto
termination
  by (relation "measure id") auto

declare hex_nat.simps [simp del]

definition format_x :: "int \<Rightarrow> string" where
  "format_x d = (if d < 0 then CHR ''-'' # hex_nat (nat (- d)) else hex_nat (nat d))"

section \<open>Paths\<close>

text \<open>
  \<open>pathlib\<close> is not part of the repository. \<open>Path(p).name\<close> and \<open>Path(p).suffix\<close> are
  modelled after the POSIX flavour of the library: the components of a path are the
  pieces between slashes that are neither empty nor a single dot, the name is the last
  component (empty when there is none), and the suffix is the part of the name from its
  last dot on, provided that dot is neither the first nor the last character of the name.
\<close>

definition path_components :: "string \<Rightarrow> string list" where
  "path_components p = filter (\<lambda>x. x \<noteq> [] \<and> x \<noteq> ''.'') (split_on CHR ''/'' p)"

definition path_name :: "string \<Rightarrow> string" where
  "path_name p = (case path_components p of [] \<Rightarrow> [] | x # xs \<Rightarrow> last (x # xs))"

definition path_suffix :: "string \<Rightarrow> string" where
  "path_suffix p =
     (let name = path_name p; i = rfind CHR ''.'' name
      in if 0 < i \<and> i < int (length name) - 1 then drop (nat i) name else [])"

text \<open>\<open>file_ext(filepath)\<close>.\<close>

definition file_ext :: "string \<Rightarrow> string" where
  "file_ext filepath = path_suffix filepath"

section \<open>Define lookup\<close>

text \<open>
  \<open>get_define(name, defines)\<close>: \<open>next\<close> over the generator gives the first define
  holding \<open>name\<close>; \<open>StopIteration\<close> is caught and turned into \<open>None\<close>.
  \<open>split('=')[-1]\<close> is the last piece of the split.
\<close>

definition get_define :: "string \<Rightarrow> string list \<Rightarrow> string option" where
  "get_define name defines =
     (case find (\<lambda>d. str_in name d) defines of
        None \<Rightarrow> None
      | Some d \<Rightarrow> Some (last (split_on CHR ''='' d)))"

section \<open>Exceptions\<close>

text \<open>
  The command handed to \<open>Popen\<close> and named in the \<open>RuntimeError\<close> message is a string
  for Vivado and the list \<open>exec_str.split()\<close> for the other tools.
\<close>

datatype exec_cmd = CmdStr string | CmdList "string list"

text \<open>
  \<open>AssertionError(output, self.defines)\<close> carries its two arguments. The message of the
  \<open>RuntimeError\<close> is \<open>"Execution failed at '%s' with return code %d!"\<close> filled with the
  command and the return code: the model keeps those two values. \<open>ValueError\<close> carries
  its message and \<open>KeyError\<close> the key that the table of runners lacks. The remaining
  constructors are the \<open>OSError\<close>s of the file operations.
\<close>

datatype error =
    AssertionError string "string list"
  | RuntimeError exec_cmd int
  | ValueError string
  | KeyError string
  | FileNotFoundError
  | FileExistsError
  | NotADirectoryError
  | IsADirectoryError
  | DirectoryNotEmpty

section \<open>File system\<close>

text \<open>
  The file system is a tree of regular files (with their text) and directories (with
  their entries, in the order a directory scan lists them). Symbolic links and special
  files are outside the model. A resolved path is the list of its components, from the
  root.
\<close>

datatype node = File string | Dir "(string \<times> node) list"

type_synonym path = "string list"

fun lookup :: "node \<Rightarrow> path \<Rightarrow> node option" where
  "lookup n [] = Some n"
| "lookup (File c) (x # xs) = None"
| "lookup (Dir es) (x # xs) = (case map_of es x of None \<Rightarrow> None | Some n \<Rightarrow> lookup n xs)"

definition is_dir :: "node \<Rightarrow> path \<Rightarrow> bool" where
  "is_dir fs p = (case lookup fs p of Some (Dir es) \<Rightarrow> True | _ \<Rightarrow> False)"

text \<open>
  \<open>put p v fs\<close> sets what is found at \<open>p\<close>: \<open>Some n\<close> stores \<open>n\<close> there, \<open>None\<close> removes
  the entry. The directories above \<open>p\<close> must exist; elsewhere nothing changes.
\<close>

fun put :: "path \<Rightarrow> node option \<Rightarrow> node \<Rightarrow> node" where
  "put [] v n = (case v of None \<Rightarrow> n | Some n' \<Rightarrow> n')"
| "put (x # xs) v (File c) = File c"
| "put [x] v (Dir es) =
     Dir (case v of None \<Rightarrow> AList.delete x es | Some n \<Rightarrow> AList.update x n es)"
| "put (x # y # ys) v (Dir es) =
     (case map_of es x of
        None \<Rightarrow> Dir es
      | Some n \<Rightarrow> Dir (AList.update x (put (y # ys) v n) es))"

text \<open>\<open>str(path)\<close> of a resolved path.\<close>

definition str_path :: "path \<Rightarrow> string" where
  "str_path p = (if p = [] then ''/'' else concat (map (\<lambda>x. CHR ''/'' # x) p))"

text \<open>\<open>path_join(dir, name)\<close> for a resolved directory and a file name.\<close>

definition path_join :: "path \<Rightarrow> string \<Rightarrow> path" where
  "path_join dir name = dir @ [name]"

text \<open>
  \<open>blocked fs p\<close>: on the way to \<open>p\<close> a regular file stands where a directory is
  needed. The system then refuses to create anything at \<open>p\<close> with the error
  \<open>NotADirectoryError\<close>, while a missing directory gives \<open>FileNotFoundError\<close>.
\<close>

fun blocked :: "node \<Rightarrow> path \<Rightarrow> bool" where
  "blocked n [] = False"
| "blocked (File c) (x # xs) = True"
| "blocked (Dir es) (x # xs) = (case map_of es x of None \<Rightarrow> False | Some n \<Rightarrow> blocked n xs)"

text \<open>
  \<open>make_dir(name)\<close>, that is \<open>Path(name).mkdir()\<close> with its defaults: the parent must
  be an existing directory and the path itself must not exist.
\<close>

definition make_dir :: "path \<Rightarrow> node \<Rightarrow> error + node" where
  "make_dir p fs =
     (if lookup fs p \<noteq> None then Inl FileExistsError
      else if blocked fs p then Inl NotADirectoryError
      else case lookup fs (butlast p) of
             None \<Rightarrow> Inl FileNotFoundError
           | Some (File c) \<Rightarrow> Inl NotADirectoryError
           | Some (Dir es) \<Rightarrow> Inr (put p (Some (Dir [])) fs))"

text \<open>
  \<open>remove_tree(dirpath)\<close> only touches what is below \<open>dirpath\<close>, so its recursion is
  written on the node found there. \<open>remove_tree_node n\<close> is what is left at the path
  (\<open>None\<close> once \<open>rmdir\<close> has removed it); \<open>remove_children es\<close> is the loop over
  \<open>p.glob('*')\<close> and gives the entries still in the directory after it. \<open>rmdir\<close> fails on
  a directory that still has entries.
\<close>

fun remove_tree_node :: "node \<Rightarrow> error + node option"
  and remove_children :: "(string \<times> node) list \<Rightarrow> error + (string \<times> node) list" where
  "remove_tree_node (File c) = Inr (Some (File c))"
| "remove_tree_node (Dir es) =
     (case remove_children es of
        Inl e \<Rightarrow> Inl e
      | Inr left \<Rightarrow> if left = [] then Inr None else Inl DirectoryNotEmpty)"
| "remove_children [] = Inr []"
| "remove_children ((name, child) # es) =
     (case (case child of
              File c \<Rightarrow> Inr None
            | Dir cs \<Rightarrow> remove_tree_node (Dir cs)) of
        Inl e \<Rightarrow> Inl e
      | Inr after \<Rightarrow>
          (case remove_children es of
             Inl e \<Rightarrow> Inl e
           | Inr left \<Rightarrow> Inr (case after of None \<Rightarrow> left | Some n \<Rightarrow> (name, n) # left)))"

text \<open>The root directory cannot be removed: \<open>rmdir\<close> of it fails.\<close>

definition remove_tree :: "path \<Rightarrow> node \<Rightarrow> error + node" where
  "remove_tree p fs =
     (case lookup fs p of
        None \<Rightarrow> Inr fs
      | Some n \<Rightarrow>
          (case remove_tree_node n of
             Inl e \<Rightarrow> Inl e
           | Inr None \<Rightarrow> if p = [] then Inl DirectoryNotEmpty else Inr (put p None fs)
           | Inr (Some n') \<Rightarrow> Inr (put p (Some n') fs)))"

text \<open>
  The workspace setup of \<open>Simulator.__init__\<close>: \<open>remove_tree(self.cwd)\<close>, then
  \<open>make_dir(self.cwd)\<close>.
\<close>

definition workspace_setup :: "path \<Rightarrow> node \<Rightarrow> error + node" where
  "workspace_setup cwd fs =
     (case remove_tree cwd fs of
        Inl e \<Rightarrow> Inl e
      | Inr fs' \<Rightarrow> make_dir cwd fs')"

text \<open>
  \<open>Path(p).open(mode='w')\<close> followed by writing \<open>text\<close>: the file is created or
  truncated. The parent must be an existing directory and the path must not be a
  directory.
\<close>

definition write_text :: "path \<Rightarrow> string \<Rightarrow> node \<Rightarrow> error + node" where
  "write_text p text fs =
     (case lookup fs p of
        Some (Dir es) \<Rightarrow> Inl IsADirectoryError
      | Some (File c) \<Rightarrow> Inr (put p (Some (File text)) fs)
      | None \<Rightarrow>
          (if blocked fs p then Inl NotADirectoryError
           else case lookup fs (butlast p) of
                  None \<Rightarrow> Inl FileNotFoundError
                | Some (File c) \<Rightarrow> Inl NotADirectoryError
                | Some (Dir es) \<Rightarrow> Inr (put p (Some (File text)) fs)))"

section \<open>Memory files\<close>

text \<open>\<open>write_memfile(path, data)\<close>: \<open>writelines\<close> writes the lines one after the other.\<close>

definition write_memfile :: "path \<Rightarrow> int list \<Rightarrow> node \<Rightarrow> error + node" where
  "write_memfile p data fs = write_text p (concat (map (\<lambda>d. format_x d @ ''\<newline>'') data)) fs"

section \<open>The simulator wrapper\<close>

text \<open>The attributes of a \<open>Simulator\<close> object; \<open>top'\<close> is the attribute \<open>top\<close>.\<close>

record simulator =
  gui :: bool
  cwd :: path
  name :: string
  worklib :: string
  top' :: string
  sources :: "string list"
  "defines" :: "string list"
  params :: "string list"
  incdirs :: "string list"
  stdout :: string
  retcode :: int
  sim_errors :: "string list"

text \<open>
  What the wrapper acts on: the file system, the lines printed on the console, and the
  number of child processes it has killed.
\<close>

record world =
  fs :: node
  console :: "string list"
  kills :: nat

definition print :: "string \<Rightarrow> world \<Rightarrow> world" where
  "print text w = w\<lparr>console := console w @ [text]\<rparr>"

text \<open>
  \<open>Simulator.__init__\<close>. \<open>install_dir\<close> is \<open>parent_dir(__file__)\<close> and \<open>cwd\<close> is the
  resolved working directory.
\<close>

definition Simulator :: "path \<Rightarrow> string \<Rightarrow> bool \<Rightarrow> path \<Rightarrow> world \<Rightarrow> error + simulator \<times> world" where
  "Simulator install_dir tool gui_flag dir w =
     (if install_dir = dir
      then Inl (ValueError (''Wrong working directory '' @ [CHR 0x27] @ str_path dir @ [CHR 0x27]))
      else if tool \<notin> set [''icarus'', ''modelsim'', ''vivado'']
      then Inl (ValueError (''Unknown simulator tool '' @ [CHR 0x27] @ tool @ [CHR 0x27]))
      else (case workspace_setup dir (fs w) of
              Inl e \<Rightarrow> Inl e
            | Inr fs' \<Rightarrow>
                Inr (\<lparr>gui = gui_flag, cwd = dir, name = tool, worklib = ''worklib'',
                      top' = ''top'', sources = [], defines = [], params = [], incdirs = [],
                      stdout = [], retcode = 0,
                      sim_errors = [''$error : '', ''Error: '', ''ERROR: '', ''Assertion error'']\<rparr>,
                     w\<lparr>fs := fs'\<rparr>)))"

text \<open>\<open>Simulator.get_define(name)\<close>.\<close>

definition sim_get_define :: "simulator \<Rightarrow> string \<Rightarrow> string option" where
  "sim_get_define s n = get_define n (defines s)"

section \<open>Process runner\<close>

text \<open>
  A child process is seen through what the read loop observes of it: for each turn of
  the loop, the decoded text \<open>readline\<close> gives (empty at the end of the stream) and
  whether \<open>poll()\<close> then reports that the process has exited; and the return code.
  Output that is not valid UTF-8 is outside the model.
\<close>

record child =
  reads :: "(string \<times> bool) list"
  returncode :: int

text \<open>
  The \<open>while True\<close> loop of \<open>_exec\<close>. The result is the exception raised in the loop,
  if any, with the world after the loop; \<open>None\<close> when the observations end before the
  loop does, that is, the runner is still blocked on the child.
\<close>

fun read_loop :: "simulator \<Rightarrow> (string \<times> bool) list \<Rightarrow> world \<Rightarrow> (error option \<times> world) option" where
  "read_loop s [] w = None"
| "read_loop s ((line, exited) # rest) w =
     (let output = strip line in
      if output = [] \<and> exited then Some (None, w)
      else (case find (\<lambda>err. str_in err output) (sim_errors s) of
              Some err \<Rightarrow>
                Some (Some (AssertionError (replace err [] output) (defines s)),
                      w\<lparr>kills := kills w + 1\<rparr>)
            | None \<Rightarrow> read_loop s rest (if output \<noteq> [] then print output w else w)))"

text \<open>
  \<open>Simulator._exec(prog, args)\<close>: the exception raised, if any, with the simulator and
  the world afterwards.
\<close>

type_synonym outcome = "(error option \<times> simulator \<times> world) option"

definition exec :: "simulator \<Rightarrow> world \<Rightarrow> string \<Rightarrow> string \<Rightarrow> child \<Rightarrow> outcome" where
  "exec s w prog args ch =
     (let exec_str = prog @ '' '' @ args;
          w1 = print exec_str w;
          cmd = (if name s = ''vivado'' then CmdStr exec_str else CmdList (split_ws exec_str))
      in case read_loop s (reads ch) w1 of
           None \<Rightarrow> None
         | Some (Some e, w2) \<Rightarrow> Some (Some e, s, w2)
         | Some (None, w2) \<Rightarrow>
             (let s' = s\<lparr>retcode := returncode ch\<rparr> in
              if retcode s' \<noteq> 0 then Some (Some (RuntimeError cmd (retcode s')), s', w2)
              else Some (None, s', w2)))"

text \<open>Sequencing: the next step runs only when the step before has returned normally.\<close>

definition and_then :: "outcome \<Rightarrow> (simulator \<Rightarrow> world \<Rightarrow> outcome) \<Rightarrow> outcome" where
  "and_then r f =
     (case r of
        None \<Rightarrow> None
      | Some (Some e, s, w) \<Rightarrow> Some (Some e, s, w)
      | Some (None, s, w) \<Rightarrow> f s w)"

section \<open>Icarus adapter\<close>

definition icarus_elab_args :: "simulator \<Rightarrow> string" where
  "icarus_elab_args s =
     [] @ (join '' '' (map (\<lambda>incdir. ''-I '' @ incdir) (incdirs s)) @ '' '')
        @ (join '' '' (map (\<lambda>define. ''-D '' @ define) (defines s)) @ '' '')
        @ ((''-g2005-sv -s '' @ top' s @ '' -o '' @ worklib s @ ''.vvp'') @ '' '')
        @ join '' '' (sources s)"

definition run_icarus :: "simulator \<Rightarrow> world \<Rightarrow> child \<Rightarrow> child \<Rightarrow> child \<Rightarrow> outcome" where
  "run_icarus s w iverilog vvp gtkwave =
     (let w1 = print (''Run Icarus (cwd='' @ str_path (cwd s) @ '')'') w;
          w2 = print (join '' '' (defines s)) w1
      in and_then (exec s w2 ''iverilog'' (icarus_elab_args s) iverilog) (\<lambda>s w.
         and_then (exec s w ''vvp'' (worklib s @ ''.vvp -lxt2'') vvp) (\<lambda>s w.
         if gui s then exec s w ''gtkwave'' ''dump.vcd'' gtkwave else Some (None, s, w))))"

section \<open>ModelSim adapter\<close>

definition modelsim_defines :: "simulator \<Rightarrow> string" where
  "modelsim_defines s = join '' '' (map (\<lambda>define. ''+define+'' @ define) (defines s))"

definition modelsim_incdirs :: "simulator \<Rightarrow> string" where
  "modelsim_incdirs s = join '' '' (map (\<lambda>incdir. ''+incdir+'' @ incdir) (incdirs s))"

definition modelsim_params :: "simulator \<Rightarrow> string" where
  "modelsim_params s = concat (map (\<lambda>param. ''-G '' @ param @ '' '') (params s))"

text \<open>The compile line of a Verilog or SystemVerilog source.\<close>

definition vlog_line :: "string \<Rightarrow> string \<Rightarrow> string \<Rightarrow> string" where
  \<open>vlog_line defs incs src =
     ''vlog -nologo -suppress 2902 '' @ defs @ '' '' @ incs
       @ '' -sv -timescale "1 ns / 1 ps" '' @ src @ ''\<newline>''\<close>

text \<open>The loop over \<open>self.sources\<close>; the last argument is the text gathered so far.\<close>

fun modelsim_sources :: "string \<Rightarrow> string \<Rightarrow> string list \<Rightarrow> string \<Rightarrow> string" where
  "modelsim_sources defs incs [] acc = acc"
| "modelsim_sources defs incs (src # rest) acc =
     (let ext = file_ext src in
      if ext \<in> set [''.v'', ''.sv'']
      then modelsim_sources defs incs rest (acc @ vlog_line defs incs src)
      else if ext = ''vhd''
      then modelsim_sources defs incs rest (acc @ ''vcom -93 '' @ src @ ''\<newline>'')
      else modelsim_sources defs incs rest acc)"

text \<open>
  The template \<open>compile_tcl\<close> with its fields filled in: its text up to the field
  \<open>{sources}\<close>, and its text after that field.
\<close>

definition compile_tcl_head :: "string \<Rightarrow> string" where
  \<open>compile_tcl_head worklib_v =
     ''\<newline>            proc rr  {} {\<newline>''
     @ ''              write format wave -window .main_pane.wave.interior.cs.body.pw.wf wave.do\<newline>''
     @ ''              uplevel #0 source compile.tcl\<newline>''
     @ ''            }\<newline>''
     @ ''            proc q  {} {quit -force}\<newline>''
     @ ''            vlib '' @ worklib_v @ ''\<newline>''
     @ ''            vmap work '' @ worklib_v @ ''\<newline>            ''\<close>

definition compile_tcl_tail :: "string \<Rightarrow> string \<Rightarrow> string \<Rightarrow> string \<Rightarrow> string" where
  \<open>compile_tcl_tail worklib_v top_v params_v run_v =
     ''\<newline>''
     @ ''            eval vsim '' @ worklib_v @ ''.'' @ top_v @ '' '' @ params_v @ ''\<newline>''
     @ ''            if [file exist wave.do] {\<newline>''
     @ ''              source wave.do\<newline>''
     @ ''            }\<newline>''
     @ ''            '' @ run_v @ ''\<newline>''
     @ ''            ''\<close>

definition compile_tcl :: "string \<Rightarrow> string \<Rightarrow> string \<Rightarrow> string \<Rightarrow> string \<Rightarrow> string" where
  "compile_tcl worklib_v top_v sources_v params_v run_v =
     compile_tcl_head worklib_v @ sources_v @ compile_tcl_tail worklib_v top_v params_v run_v"

text \<open>The text written to \<open>compile.tcl\<close>.\<close>

definition modelsim_script :: "simulator \<Rightarrow> string" where
  "modelsim_script s =
     compile_tcl (worklib s) (top' s)
       (modelsim_sources (modelsim_defines s) (modelsim_incdirs s) (sources s) [])
       (modelsim_params s)
       (if \<not> gui s then ''run -all'' else [])"

definition vsim_args :: "simulator \<Rightarrow> string" where
  "vsim_args s =
     ''-do compile.tcl''
       @ (if \<not> gui s then '' -c -64 '' @ '' -onfinish exit'' else '' -onfinish stop'')"

definition run_modelsim :: "simulator \<Rightarrow> world \<Rightarrow> child \<Rightarrow> outcome" where
  "run_modelsim s w vsim =
     (let w1 = print (''Run Modelsim (cwd='' @ str_path (cwd s) @ '')'') w;
          w2 = print (join '' '' (defines s)) w1
      in case write_text (path_join (cwd s) ''compile.tcl'') (modelsim_script s) (fs w2) of
           Inl e \<Rightarrow> Some (Some e, s, w2)
         | Inr fs' \<Rightarrow> exec s (w2\<lparr>fs := fs'\<rparr>) ''vsim'' (vsim_args s) vsim)"

section \<open>Vivado adapter\<close>

definition vivado_elab_args :: "simulator \<Rightarrow> string" where
  \<open>vivado_elab_args s =
     (''-a --prj files.prj '' @ top' s @ '' -R -nolog -timescale "1 ns / 1 ps" '')
       @ (join '' '' (map (\<lambda>define. ''-d '' @ ''"'' @ define @ ''"'') (defines s)) @ '' '')
       @ (join '' '' (map (\<lambda>param. ''--generic_top '' @ ''"'' @ param @ ''"'') (params s)) @ '' '')
       @ (join '' '' (map (\<lambda>incdir. ''-i '' @ incdir) (incdirs s)) @ '' '')\<close>

text \<open>The loop over \<open>self.sources\<close>; the last argument is the text gathered so far.\<close>

fun vivado_sources :: "string list \<Rightarrow> string \<Rightarrow> string" where
  "vivado_sources [] acc = acc"
| "vivado_sources (src # rest) acc =
     (let ext = file_ext src in
      if ext = ''.sv'' then vivado_sources rest (acc @ ''sv work '' @ src @ ''\<newline>'')
      else if ext = ''.v'' then vivado_sources rest (acc @ ''verilog work '' @ src @ ''\<newline>'')
      else if ext = ''vhd'' then vivado_sources rest (acc @ ''vhdl work '' @ src @ ''\<newline>'')
      else vivado_sources rest acc)"

text \<open>The three lines \<open>_run_vivado\<close> prints first.\<close>

definition vivado_banner :: "simulator \<Rightarrow> world \<Rightarrow> world" where
  "vivado_banner s w =
     (let w1 = print (''Run Vivado (cwd='' @ str_path (cwd s) @ '')'') w;
          w2 = print (join '' '' (defines s)) w1
      in print (join '' '' (params s)) w2)"

text \<open>The first part of \<open>_run_vivado\<close>, up to the writing of \<open>files.prj\<close>.\<close>

definition vivado_write_prj :: "simulator \<Rightarrow> world \<Rightarrow> error + world" where
  "vivado_write_prj s w =
     (let w3 = vivado_banner s w
      in case write_text (path_join (cwd s) ''files.prj'') (vivado_sources (sources s) []) (fs w3) of
           Inl e \<Rightarrow> Inl e
         | Inr fs' \<Rightarrow> Inr (w3\<lparr>fs := fs'\<rparr>))"

text \<open>
  \<open>_run_vivado\<close>. When the writing of \<open>files.prj\<close> fails, the three lines have been
  printed already.
\<close>

definition run_vivado :: "simulator \<Rightarrow> world \<Rightarrow> child \<Rightarrow> outcome" where
  "run_vivado s w xelab =
     (case vivado_write_prj s w of
        Inl e \<Rightarrow> Some (Some e, s, vivado_banner s w)
      | Inr w' \<Rightarrow> exec s w' ''xelab'' (vivado_elab_args s) xelab)"

section \<open>Running the selected simulator\<close>

text \<open>
  \<open>Simulator.run\<close>. \<open>resolve p\<close> stands for \<open>str(Path(p).resolve()).replace('\\', '/')\<close>,
  which depends on the process's current directory and on the links of the file system.
  The three children are the processes the selected runner starts, in order.
\<close>

definition run :: "(string \<Rightarrow> string) \<Rightarrow> simulator \<Rightarrow> world \<Rightarrow> child \<Rightarrow> child \<Rightarrow> child \<Rightarrow> outcome" where
  "run resolve s w c1 c2 c3 =
     (let s1 = s\<lparr>sources := map resolve (sources s),
                 incdirs := map resolve (incdirs s),
                 defines := defines s @ [''TOP_NAME='' @ top' s, ''SIM''],
                 params := params s @ []\<rparr>
      in if name s1 = ''icarus'' then run_icarus s1 w c1 c2 c3
         else if name s1 = ''modelsim'' then run_modelsim s1 w c1
         else if name s1 = ''vivado'' then run_vivado s1 w c1
         else Some (Some (KeyError (name s1)), s1, w))"

section \<open>Reading hexadecimal text\<close>

text \<open>
  The number a string of lowercase hexadecimal digits denotes, most significant digit
  first. It is used to state what \<open>'%x'\<close> writes.
\<close>

definition digit_value :: "char \<Rightarrow> nat" where
  "digit_value c = length (takeWhile (\<lambda>x. x \<noteq> c) ''0123456789abcdef'')"

definition hex_value :: "string \<Rightarrow> nat" where
  "hex_value s = foldl (\<lambda>acc c. 16 * acc + digit_value c) 0 s"

section \<open>Properties of the string operations\<close>

lemma str_in_sublist: "str_in sub s \<longleftrightarrow> sublist sub s"
  by (induction s) (auto simp: sublist_Cons_right)

lemma find_str_in: "find (\<lambda>d. str_in n d) ds = find (\<lambda>d. sublist n d) ds"
  by (simp add: str_in_sublist)

lemma find_SomeD: "find P xs = Some x \<Longrightarrow> P x \<and> x \<in> set xs"
  by (induction xs) (auto split: if_splits)

lemma split_on_not_Nil: "split_on sep s \<noteq> []"
  by (induction s) (auto split: list.splits)

lemma split_on_no_sep: "sep \<notin> set s \<Longrightarrow> split_on sep s = [s]"
  by (induction s) auto

lemma split_on_sep: "sep \<in> set s \<Longrightarrow> \<exists>w v vs. split_on sep s = w # v # vs"
proof (induction s)
  case Nil
  then show ?case by simp
next
  case (Cons c cs)
  show ?case
  proof (cases "c = sep")
    case True
    then show ?thesis
      using split_on_not_Nil[of sep cs] by (cases "split_on sep cs") auto
  next
    case False
    with Cons.prems have "sep \<in> set cs" by simp
    from Cons.IH[OF this] obtain w v vs where "split_on sep cs = w # v # vs" by blast
    with False show ?thesis by simp
  qed
qed

text \<open>The last piece of a split is the text after the last separator.\<close>

lemma last_split_on:
  "last (split_on sep s) = rev (takeWhile (\<lambda>c. c \<noteq> sep) (rev s))"
proof (induction s)
  case Nil
  show ?case by simp
next
  case (Cons c cs)
  show ?case
  proof (cases "sep \<in> set cs")
    case True
    then have tw: "takeWhile (\<lambda>c. c \<noteq> sep) (rev cs @ [c]) = takeWhile (\<lambda>c. c \<noteq> sep) (rev cs)"
      by (intro takeWhile_append1[of sep]) auto
    from split_on_sep[OF True] obtain w v vs where "split_on sep cs = w # v # vs" by blast
    with Cons tw show ?thesis by auto
  next
    case False
    then have "takeWhile (\<lambda>c. c \<noteq> sep) (rev cs @ [c]) = rev cs @ takeWhile (\<lambda>c. c \<noteq> sep) [c]"
      by (intro takeWhile_append2) auto
    with False show ?thesis
      by (auto simp: split_on_no_sep)
  qed
qed

section \<open>Define lookup: properties\<close>

lemma get_define_None_iff: "get_define n ds = None \<longleftrightarrow> (\<forall>d \<in> set ds. \<not> sublist n d)"
  by (auto simp: get_define_def find_str_in find_None_iff dest: find_SomeD split: option.splits)

text \<open>
  Claim C7, as the code has it. For the defines \<open>['WIDTH=8', 'SIM']\<close> the lookup of
  \<open>WIDTH\<close> gives \<open>'8'\<close>. For every defines list and every name that occurs in none of
  the define strings, not even as a part of one, the lookup gives \<open>None\<close>; the lookup is
  a total function and raises nothing.
\<close>

theorem get_define_absent:
  "get_define ''WIDTH'' [''WIDTH=8'', ''SIM''] = Some ''8''
   \<and> (\<forall>n ds. (\<forall>d \<in> set ds. \<not> sublist n d) \<longrightarrow> get_define n ds = None)"
  by (simp add: get_define_None_iff) (simp add: get_define_def)

theorem get_define_absent_witness:
  "\<not> sublist ''DEPTH'' ''WIDTH=8'' \<and> \<not> sublist ''DEPTH'' ''SIM''
   \<and> get_define ''DEPTH'' [''WIDTH=8'', ''SIM''] = None"
proof -
  have h: "\<forall>d \<in> set [''WIDTH=8'', ''SIM'']. \<not> sublist ''DEPTH'' d"
    by (simp add: str_in_sublist[symmetric])
  from get_define_absent have "get_define ''DEPTH'' [''WIDTH=8'', ''SIM''] = None"
    using h by blast
  with h show ?thesis by simp
qed

text \<open>
  Claim C7 as stated fails: \<open>ID\<close> is the name of no define of \<open>['WIDTH=8']\<close> (the
  name of a define is its text before the first \<open>=\<close>), yet its lookup gives \<open>'8'\<close>.
\<close>

theorem get_define_absent_counterexample:
  "''ID'' \<notin> set (map (takeWhile (\<lambda>c. c \<noteq> CHR ''='')) [''WIDTH=8''])
   \<and> get_define ''ID'' [''WIDTH=8''] = Some ''8''"
  by (simp add: get_define_def)

text \<open>
  Claim C10. The lookup matches by containment: its result is the text after the last
  \<open>=\<close> of the first define that has the name as a substring (\<open>None\<close> when there is no
  such define). So the bare define \<open>SIM\<close> is returned whole, and \<open>ID\<close> finds the value
  of \<open>WIDTH=8\<close>.
\<close>

theorem get_define_substring:
  "get_define n ds =
     (case find (\<lambda>d. sublist n d) ds of
        None \<Rightarrow> None
      | Some d \<Rightarrow> Some (rev (takeWhile (\<lambda>c. c \<noteq> CHR ''='') (rev d))))
   \<and> get_define ''SIM'' [''WIDTH=8'', ''SIM''] = Some ''SIM''
   \<and> get_define ''ID'' [''WIDTH=8''] = Some ''8''"
  by (simp add: get_define_def find_str_in last_split_on split: option.splits)

section \<open>Hexadecimal formatting: properties\<close>

lemma hex_digit_in: "n < 16 \<Longrightarrow> hex_digit n \<in> set ''0123456789abcdef''"
  unfolding hex_digit_def by (rule nth_mem) simp

lemma lt16_cases:
  "n < 16 \<Longrightarrow> n \<in> {0, 1, 2, 3, 4, 5, 6, 7, 8, 9, 10, 11, 12, 13, 14, 15::nat}"
  by simp arith

lemma digit_value_hex_digit: "n < 16 \<Longrightarrow> digit_value (hex_digit n) = n"
  by (drule lt16_cases) (auto simp: digit_value_def hex_digit_def)

lemma hex_nat_digits: "set (hex_nat n) \<subseteq> set ''0123456789abcdef''"
proof (induction n rule: hex_nat.induct)
  case (1 n)
  show ?case
  proof (cases "n < 16")
    case True
    then show ?thesis
      using hex_digit_in[of n] by (subst hex_nat.simps) simp
  next
    case False
    then show ?thesis
      using "1" hex_digit_in[of "n mod 16"] by (subst hex_nat.simps) simp
  qed
qed

lemma hex_nat_not_Nil: "hex_nat n \<noteq> []"
  by (subst hex_nat.simps) simp

lemma hex_value_snoc: "hex_value (s @ [c]) = 16 * hex_value s + digit_value c"
  by (simp add: hex_value_def)

lemma hex_value_hex_nat: "hex_value (hex_nat n) = n"
proof (induction n rule: hex_nat.induct)
  case (1 n)
  show ?case
  proof (cases "n < 16")
    case True
    then show ?thesis
      by (subst hex_nat.simps) (simp add: hex_value_def digit_value_hex_digit)
  next
    case False
    then have "hex_value (hex_nat n) = 16 * hex_value (hex_nat (n div 16)) + digit_value (hex_digit (n mod 16))"
      by (subst hex_nat.simps) (simp add: hex_value_snoc)
    with False "1" show ?thesis
      by (simp add: digit_value_hex_digit)
  qed
qed

lemma format_x_nonneg: "0 \<le> d \<Longrightarrow> format_x d = hex_nat (nat d)"
  by (simp add: format_x_def)

section \<open>File system: properties\<close>

lemma lookup_parent:
  "lookup t p = Some n \<Longrightarrow> p \<noteq> [] \<Longrightarrow> \<exists>es. lookup t (butlast p) = Some (Dir es)"
proof (induction t p rule: lookup.induct)
  case (3 es x xs)
  then show ?case by (cases xs) (auto split: option.splits)
qed simp_all

lemma lookup_put_Some:
  "p = [] \<or> (\<exists>es. lookup t (butlast p) = Some (Dir es)) \<Longrightarrow>
   lookup (put p (Some n) t) p = Some n"
proof (induction p "Some n" t rule: put.induct)
  case (4 x y ys es)
  then show ?case by (auto simp: update_conv' split: option.splits)
qed (auto simp: update_conv' split: if_splits)

lemma lookup_put_None:
  "p \<noteq> [] \<Longrightarrow> lookup (put p None t) p = None"
proof (induction p "None :: node option" t rule: put.induct)
  case (4 x y ys es)
  then show ?case by (auto simp: update_conv' split: option.splits)
qed (auto simp: delete_conv')

text \<open>Below an existing directory no regular file stands in the way.\<close>

lemma not_blocked:
  "p \<noteq> [] \<Longrightarrow> is_dir t (butlast p) \<Longrightarrow> \<not> blocked t p"
proof (induction t p rule: blocked.induct)
  case (3 es x xs)
  then show ?case
    by (cases xs) (auto simp: is_dir_def split: option.splits node.splits)
qed (auto simp: is_dir_def split: if_splits)

lemma write_text_lookup:
  "write_text p txt t = Inr t' \<Longrightarrow> lookup t' p = Some (File txt)"
  unfolding write_text_def
  by (auto split: option.splits node.splits if_splits intro!: lookup_put_Some dest: lookup_parent)

lemma write_text_succeeds:
  assumes "is_dir t (butlast p)" and "\<not> is_dir t p"
  shows "\<exists>t'. write_text p txt t = Inr t'"
proof (cases "p = []")
  case True
  with assms show ?thesis by simp
next
  case False
  from not_blocked[OF False assms(1)] assms show ?thesis
    unfolding write_text_def is_dir_def
    by (auto split: option.splits node.splits)
qed

lemma format_x_hex:
  "0 \<le> d \<Longrightarrow> format_x d \<noteq> [] \<and> set (format_x d) \<subseteq> set ''0123456789abcdef''
     \<and> int (hex_value (format_x d)) = d"
  using hex_nat_digits[of "nat d"]
  by (simp add: format_x_nonneg hex_nat_not_Nil hex_value_hex_nat del: set_simps)

text \<open>
  Claim C9. For non-negative values, the file \<open>write_memfile\<close> writes holds one line per
  value, in the order of the input: each line is the value's digits followed by a
  newline, the digits are non-empty, drawn from \<open>0123456789abcdef\<close> (so lowercase and
  without a \<open>0x\<close> prefix) and denote the value. For \<open>[10, 255]\<close> the content is
  \<open>"a\\nff\\n"\<close>. The write succeeds whenever the parent of the path is a directory and
  the path is not one.
\<close>

theorem write_memfile_hex:
  "((\<forall>d \<in> set data. 0 \<le> d) \<and> write_memfile p data t = Inr t' \<longrightarrow>
      lookup t' p = Some (File (concat (map (\<lambda>d. format_x d @ ''\<newline>'') data)))
      \<and> (\<forall>d \<in> set data. format_x d \<noteq> [] \<and> set (format_x d) \<subseteq> set ''0123456789abcdef''
            \<and> int (hex_value (format_x d)) = d))
   \<and> (write_memfile p [10, 255] t = Inr t' \<longrightarrow> lookup t' p = Some (File ''a\<newline>ff\<newline>''))
   \<and> (is_dir t (butlast p) \<and> \<not> is_dir t p \<longrightarrow> (\<exists>u. write_memfile p data t = Inr u))"
proof (intro conjI impI)
  assume "(\<forall>d \<in> set data. 0 \<le> d) \<and> write_memfile p data t = Inr t'"
  then show "lookup t' p = Some (File (concat (map (\<lambda>d. format_x d @ ''\<newline>'') data)))"
    by (auto simp: write_memfile_def dest: write_text_lookup)
next
  assume "(\<forall>d \<in> set data. 0 \<le> d) \<and> write_memfile p data t = Inr t'"
  then show "\<forall>d \<in> set data. format_x d \<noteq> [] \<and> set (format_x d) \<subseteq> set ''0123456789abcdef''
            \<and> int (hex_value (format_x d)) = d"
    using format_x_hex by blast
next
  have "concat (map (\<lambda>d. format_x d @ ''\<newline>'') [10, 255]) = ''a\<newline>ff\<newline>''"
    by code_simp
  moreover assume "write_memfile p [10, 255] t = Inr t'"
  ultimately show "lookup t' p = Some (File ''a\<newline>ff\<newline>'')"
    by (auto simp: write_memfile_def dest: write_text_lookup)
next
  assume "is_dir t (butlast p) \<and> \<not> is_dir t p"
  then show "\<exists>u. write_memfile p data t = Inr u"
    by (simp add: write_memfile_def write_text_succeeds)
qed

theorem write_memfile_hex_witness:
  "write_memfile [''m.mem''] [0, 4095] (Dir []) = Inr (Dir [(''m.mem'', File ''0\<newline>fff\<newline>'')])
   \<and> lookup (Dir [(''m.mem'', File ''0\<newline>fff\<newline>'')]) [''m.mem'']
       = Some (File (concat (map (\<lambda>d. format_x d @ ''\<newline>'') [0, 4095])))
   \<and> int (hex_value (format_x 4095)) = 4095"
proof -
  have w: "write_memfile [''m.mem''] [0, 4095] (Dir []) = Inr (Dir [(''m.mem'', File ''0\<newline>fff\<newline>'')])"
    by code_simp
  have nn: "\<forall>d \<in> set [0, 4095 :: int]. 0 \<le> d"
    by simp
  from write_memfile_hex[where data = "[0, 4095]" and p = "[''m.mem'']" and t = "Dir []"
      and t' = "Dir [(''m.mem'', File ''0\<newline>fff\<newline>'')]"] w nn
  show ?thesis by simp
qed

section \<open>Icarus adapter: properties\<close>

lemma split_ws_from_word:
  "\<forall>c \<in> set t. \<not> isspace c \<Longrightarrow> split_ws_from w (t @ rest) = split_ws_from (w @ t) rest"
  by (induction t arbitrary: w) auto

lemma isspace_space: "isspace CHR '' ''"
  by (simp add: isspace_def)

lemma split_ws_from_token:
  assumes "t \<noteq> []" and "\<forall>c \<in> set t. \<not> isspace c"
  shows "split_ws_from [] (t @ '' '' @ rest) = t # split_ws_from [] rest"
  using assms by (simp add: split_ws_from_word isspace_space)

lemma split_ws_from_last_token:
  assumes "t \<noteq> []" and "\<forall>c \<in> set t. \<not> isspace c"
  shows "split_ws_from [] t = [t]"
  using assms split_ws_from_word[of t "[]" "[]"] by simp

lemma split_ws_from_join:
  "\<forall>t \<in> set ts. t \<noteq> [] \<and> (\<forall>c \<in> set t. \<not> isspace c) \<Longrightarrow>
   split_ws_from [] (join '' '' ts @ '' '' @ rest) = ts @ split_ws_from [] rest"
proof (induction "'' ''" ts rule: join.induct)
  case 1
  show ?case by (simp add: isspace_space)
next
  case (2 x)
  then show ?case using split_ws_from_token[of x rest] by simp
next
  case (3 x y ys)
  then have "split_ws_from [] (join '' '' (y # ys) @ '' '' @ rest) = (y # ys) @ split_ws_from [] rest"
    by simp
  moreover have "x \<noteq> []" "\<forall>c \<in> set x. \<not> isspace c"
    using "3.prems" by simp_all
  ultimately show ?case
    using split_ws_from_token[of x "join '' '' (y # ys) @ '' '' @ rest"] by simp
qed

lemma split_ws_from_join_end:
  "\<forall>t \<in> set ts. t \<noteq> [] \<and> (\<forall>c \<in> set t. \<not> isspace c) \<Longrightarrow>
   split_ws_from [] (join '' '' ts) = ts"
proof (induction "'' ''" ts rule: join.induct)
  case 1
  show ?case by simp
next
  case (2 x)
  then show ?case using split_ws_from_last_token[of x] by simp
next
  case (3 x y ys)
  then have "split_ws_from [] (join '' '' (y # ys)) = y # ys"
    by simp
  moreover have "x \<noteq> []" "\<forall>c \<in> set x. \<not> isspace c"
    using "3.prems" by simp_all
  ultimately show ?case
    using split_ws_from_token[of x "join '' '' (y # ys)"] by simp
qed

lemma join_flags:
  "join '' '' (map (\<lambda>x. f @ '' '' @ x) xs) = join '' '' (concat (map (\<lambda>x. [f, x]) xs))"
  by (induction "'' ''" xs rule: join.induct) simp_all

lemma icarus_elab_args_layout:
  "icarus_elab_args s =
     join '' '' (map (\<lambda>i. ''-I '' @ i) (incdirs s)) @ '' ''
       @ join '' '' (map (\<lambda>d. ''-D '' @ d) (defines s))
       @ '' -g2005-sv -s '' @ top' s @ '' -o '' @ worklib s @ ''.vvp '' @ join '' '' (sources s)"
  by (simp add: icarus_elab_args_def)

lemma icarus_elab_args_joins:
  "icarus_elab_args s =
     join '' '' (concat (map (\<lambda>i. [''-I'', i]) (incdirs s))) @ '' ''
       @ (join '' '' (concat (map (\<lambda>d. [''-D'', d]) (defines s))) @ '' ''
       @ (join '' '' [''-g2005-sv'', ''-s'', top' s, ''-o'', worklib s @ ''.vvp''] @ '' ''
       @ join '' '' (sources s)))"
  using join_flags[of "''-I''" "incdirs s"] join_flags[of "''-D''" "defines s"]
  by (simp add: icarus_elab_args_def)

lemma flag_tokens_clean:
  assumes "\<forall>x \<in> set xs. x \<noteq> [] \<and> (\<forall>c \<in> set x. \<not> isspace c)"
    and "f \<noteq> []" and "\<forall>c \<in> set f. \<not> isspace c"
  shows "\<forall>t \<in> set (concat (map (\<lambda>x. [f, x]) xs)). t \<noteq> [] \<and> (\<forall>c \<in> set t. \<not> isspace c)"
  using assms by auto

lemma icarus_elab_args_tokens:
  assumes "\<forall>x \<in> set (incdirs s @ defines s @ sources s @ [top' s, worklib s]).
             x \<noteq> [] \<and> (\<forall>c \<in> set x. \<not> isspace c)"
  shows "split_ws (icarus_elab_args s) =
           concat (map (\<lambda>i. [''-I'', i]) (incdirs s))
             @ concat (map (\<lambda>d. [''-D'', d]) (defines s))
             @ [''-g2005-sv'', ''-s'', top' s, ''-o'', worklib s @ ''.vvp'']
             @ sources s"
proof -
  have ci: "\<forall>t \<in> set (concat (map (\<lambda>i. [''-I'', i]) (incdirs s))). t \<noteq> [] \<and> (\<forall>c \<in> set t. \<not> isspace c)"
    using assms by (intro flag_tokens_clean) (auto simp: isspace_def)
  have cd: "\<forall>t \<in> set (concat (map (\<lambda>d. [''-D'', d]) (defines s))). t \<noteq> [] \<and> (\<forall>c \<in> set t. \<not> isspace c)"
    using assms by (intro flag_tokens_clean) (auto simp: isspace_def)
  have cf: "\<forall>t \<in> set [''-g2005-sv'', ''-s'', top' s, ''-o'', worklib s @ ''.vvp''].
              t \<noteq> [] \<and> (\<forall>c \<in> set t. \<not> isspace c)"
    using assms by (auto simp: isspace_def)
  have cs: "\<forall>t \<in> set (sources s). t \<noteq> [] \<and> (\<forall>c \<in> set t. \<not> isspace c)"
    using assms by auto
  show ?thesis
    unfolding split_ws_def icarus_elab_args_joins
    by (simp only: split_ws_from_join[OF ci] split_ws_from_join[OF cd] split_ws_from_join[OF cf]
        split_ws_from_join_end[OF cs])
qed

text \<open>
  Claim C6. The elaboration argument string of the Icarus adapter is the include flags,
  then one \<open>-D\<close> flag per define in the order of the define list, then the fixed flags,
  then the source list in its order, at the end. When no include directory, define,
  source, top name or library name is empty or holds whitespace, the argument words the
  runner splits the string into are exactly these flags and files, one \<open>-D\<close> followed by
  its define for each define.
\<close>

theorem icarus_elab_args_flags:
  "icarus_elab_args s =
     join '' '' (map (\<lambda>i. ''-I '' @ i) (incdirs s)) @ '' ''
       @ join '' '' (map (\<lambda>d. ''-D '' @ d) (defines s))
       @ '' -g2005-sv -s '' @ top' s @ '' -o '' @ worklib s @ ''.vvp '' @ join '' '' (sources s)
   \<and> ((\<forall>x \<in> set (incdirs s @ defines s @ sources s @ [top' s, worklib s]).
          x \<noteq> [] \<and> (\<forall>c \<in> set x. \<not> isspace c)) \<longrightarrow>
        split_ws (icarus_elab_args s) =
          concat (map (\<lambda>i. [''-I'', i]) (incdirs s))
            @ concat (map (\<lambda>d. [''-D'', d]) (defines s))
            @ [''-g2005-sv'', ''-s'', top' s, ''-o'', worklib s @ ''.vvp'']
            @ sources s)"
  using icarus_elab_args_layout[of s] icarus_elab_args_tokens[of s] by blast

theorem icarus_elab_args_flags_witness:
  "split_ws (icarus_elab_args
     \<lparr>gui = False, cwd = [''work''], name = ''icarus'', worklib = ''worklib'', top' = ''tb'',
      sources = [''/p/tb.sv'', ''/p/dut.v''], defines = [''WIDTH=8'', ''TOP_NAME=tb'', ''SIM''],
      params = [], incdirs = [''/p/inc''], stdout = [], retcode = 0, sim_errors = []\<rparr>)
   = [''-I'', ''/p/inc'', ''-D'', ''WIDTH=8'', ''-D'', ''TOP_NAME=tb'', ''-D'', ''SIM'',
      ''-g2005-sv'', ''-s'', ''tb'', ''-o'', ''worklib.vvp'', ''/p/tb.sv'', ''/p/dut.v'']"
  (is "split_ws (icarus_elab_args ?s) = _")
proof -
  have clean: "\<forall>x \<in> set (incdirs ?s @ defines ?s @ sources ?s @ [top' ?s, worklib ?s]).
                 x \<noteq> [] \<and> (\<forall>c \<in> set x. \<not> isspace c)"
    by (simp add: isspace_def)
  have "(\<forall>x \<in> set (incdirs ?s @ defines ?s @ sources ?s @ [top' ?s, worklib ?s]).
           x \<noteq> [] \<and> (\<forall>c \<in> set x. \<not> isspace c)) \<longrightarrow>
        split_ws (icarus_elab_args ?s) =
          concat (map (\<lambda>i. [''-I'', i]) (incdirs ?s))
            @ concat (map (\<lambda>d. [''-D'', d]) (defines ?s))
            @ [''-g2005-sv'', ''-s'', top' ?s, ''-o'', worklib ?s @ ''.vvp'']
            @ sources ?s"
    using icarus_elab_args_flags[of ?s] by (rule conjunct2)
  with clean have "split_ws (icarus_elab_args ?s) =
          concat (map (\<lambda>i. [''-I'', i]) (incdirs ?s))
            @ concat (map (\<lambda>d. [''-D'', d]) (defines ?s))
            @ [''-g2005-sv'', ''-s'', top' ?s, ''-o'', worklib ?s @ ''.vvp'']
            @ sources ?s"
    by (rule rev_mp)
  then show ?thesis by simp
qed

section \<open>File extensions and the source loops\<close>

lemma rfind_nonneg:
  assumes "0 \<le> rfind c s"
  shows "nat (rfind c s) < length s \<and> s ! nat (rfind c s) = c"
proof (cases "filter (\<lambda>i. s ! i = c) (rev [0..<length s])")
  case Nil
  with assms show ?thesis by (simp add: rfind_def)
next
  case (Cons i rest)
  then have "i \<in> set (filter (\<lambda>i. s ! i = c) (rev [0..<length s]))" by simp
  then have "i < length s \<and> s ! i = c" by simp
  with Cons show ?thesis by (simp add: rfind_def)
qed

lemma path_suffix_dot: "path_suffix p = [] \<or> hd (path_suffix p) = CHR ''.''"
proof (cases "0 < rfind CHR ''.'' (path_name p) \<and> rfind CHR ''.'' (path_name p) < int (length (path_name p)) - 1")
  case True
  then have "0 \<le> rfind CHR ''.'' (path_name p)" by simp
  from rfind_nonneg[OF this] show ?thesis
    by (simp add: path_suffix_def Let_def hd_drop_conv_nth)
next
  case False
  then show ?thesis by (auto simp: path_suffix_def Let_def)
qed

lemma file_ext_dot: "file_ext p = [] \<or> hd (file_ext p) = CHR ''.''"
  by (simp add: file_ext_def path_suffix_dot)

lemma file_ext_not_vhd: "file_ext p \<noteq> ''vhd''"
  using file_ext_dot[of p] by auto

lemma modelsim_sources_concat:
  "modelsim_sources d i srcs acc =
     acc @ concat (map (\<lambda>src. if file_ext src \<in> set [''.v'', ''.sv''] then vlog_line d i src else []) srcs)"
  by (induction srcs arbitrary: acc) (simp_all add: Let_def file_ext_not_vhd)

lemma vivado_sources_concat:
  "vivado_sources srcs acc =
     acc @ concat (map (\<lambda>src. if file_ext src = ''.sv'' then ''sv work '' @ src @ ''\<newline>''
                               else if file_ext src = ''.v'' then ''verilog work '' @ src @ ''\<newline>''
                               else []) srcs)"
  by (induction srcs arbitrary: acc) (simp_all add: Let_def file_ext_not_vhd)

text \<open>Text made of newline-terminated lines is empty or ends with a newline.\<close>

lemma concat_lines_end:
  assumes "\<forall>x \<in> set xs. f x = [] \<or> suffix ''\<newline>'' (f x)"
  shows "concat (map f xs) = [] \<or> suffix ''\<newline>'' (concat (map f xs))"
  using assms
proof (induction xs rule: rev_induct)
  case Nil
  show ?case by simp
next
  case (snoc x xs)
  then have IH: "concat (map f xs) = [] \<or> suffix ''\<newline>'' (concat (map f xs))" by simp
  from snoc.prems have fx: "f x = [] \<or> suffix ''\<newline>'' (f x)" by simp
  show ?case
  proof (cases "f x = []")
    case True
    with IH show ?thesis by simp
  next
    case False
    with fx have "suffix ''\<newline>'' (f x)" by simp
    then have "suffix ''\<newline>'' (concat (map f xs) @ f x)"
      by (rule suffix_appendI)
    then show ?thesis by simp
  qed
qed

lemma vlog_line_newline: "suffix ''\<newline>'' (vlog_line d i src)"
  unfolding vlog_line_def append_assoc[symmetric] by (rule suffixI[OF refl])

section \<open>ModelSim adapter: properties\<close>

lemma compile_tcl_head_end: "suffix ''\<newline>            '' (compile_tcl_head wl)"
  unfolding compile_tcl_head_def append_assoc[symmetric] by (rule suffixI[OF refl])

lemma modelsim_script_line:
  assumes "src \<in> set (sources s)" and "file_ext src = ''.sv'' \<or> file_ext src = ''.v''"
  shows "\<exists>pre post.
           modelsim_script s = pre @ vlog_line (modelsim_defines s) (modelsim_incdirs s) src @ post
           \<and> (suffix ''\<newline>'' pre \<or> suffix ''\<newline>            '' pre)"
proof -
  define f where "f = (\<lambda>src. if file_ext src \<in> set [''.v'', ''.sv'']
                    then vlog_line (modelsim_defines s) (modelsim_incdirs s) src else [])"
  from assms(1) obtain xs ys where split: "sources s = xs @ src # ys"
    by (auto simp: in_set_conv_decomp)
  from assms(2) have line: "f src = vlog_line (modelsim_defines s) (modelsim_incdirs s) src"
    by (auto simp: f_def)
  obtain tail where "modelsim_script s = compile_tcl_head (worklib s) @ concat (map f (sources s)) @ tail"
    by (simp add: modelsim_script_def compile_tcl_def modelsim_sources_concat f_def)
  then have eq: "modelsim_script s
      = (compile_tcl_head (worklib s) @ concat (map f xs))
          @ vlog_line (modelsim_defines s) (modelsim_incdirs s) src @ (concat (map f ys) @ tail)"
    by (simp add: split line)
  have "\<forall>x \<in> set xs. f x = [] \<or> suffix ''\<newline>'' (f x)"
    by (simp add: vlog_line_newline f_def)
  from concat_lines_end[OF this]
  have "suffix ''\<newline>'' (compile_tcl_head (worklib s) @ concat (map f xs))
        \<or> suffix ''\<newline>            '' (compile_tcl_head (worklib s) @ concat (map f xs))"
  proof
    assume e: "concat (map f xs) = []"
    show ?thesis
      by (rule disjI2) (simp only: e append_Nil2 compile_tcl_head_end)
  next
    assume "suffix ''\<newline>'' (concat (map f xs))"
    then show ?thesis by (simp add: suffix_appendI)
  qed
  with eq show ?thesis by blast
qed

lemma vlog_line_sv:
  "prefix ''vlog '' (vlog_line d i src) \<and> sublist '' -sv '' (vlog_line d i src)"
proof
  show "prefix ''vlog '' (vlog_line d i src)"
    by (simp add: vlog_line_def)
  have \<open>vlog_line d i src =
          (''vlog -nologo -suppress 2902 '' @ d @ '' '' @ i) @ '' -sv ''
            @ (''-timescale "1 ns / 1 ps" '' @ src @ ''\<newline>'')\<close>
    by (simp add: vlog_line_def)
  then show "sublist '' -sv '' (vlog_line d i src)"
    by (simp only: sublist_appendI)
qed

text \<open>
  Claim C4. For every source of the ModelSim adapter whose extension is \<open>.sv\<close> or \<open>.v\<close>,
  the script written to \<open>compile.tcl\<close> holds the compile line of that source, placed at
  the start of a line (after a newline, or after the indentation of the template); the
  line begins with \<open>vlog\<close> and carries the \<open>-sv\<close> flag. The extension helper gives either
  the empty string or a text that begins with a dot, so it never gives \<open>vhd\<close>: the VHDL
  branch is never taken, and the source loop gathers the \<open>vlog\<close> lines only.
\<close>

theorem modelsim_extension_dispatch:
  "(\<forall>src \<in> set (sources s). file_ext src = ''.sv'' \<or> file_ext src = ''.v'' \<longrightarrow>
      (\<exists>pre post.
         modelsim_script s = pre @ vlog_line (modelsim_defines s) (modelsim_incdirs s) src @ post
         \<and> (suffix ''\<newline>'' pre \<or> suffix ''\<newline>            '' pre)))
   \<and> (\<forall>d i src. prefix ''vlog '' (vlog_line d i src) \<and> sublist '' -sv '' (vlog_line d i src))
   \<and> (\<forall>p. file_ext p = [] \<or> hd (file_ext p) = CHR ''.'')
   \<and> (\<forall>p. file_ext p \<noteq> ''vhd'')
   \<and> (\<forall>d i srcs acc.
         modelsim_sources d i srcs acc =
           acc @ concat (map (\<lambda>src. if file_ext src \<in> set [''.v'', ''.sv'']
                                     then vlog_line d i src else []) srcs))"
  using modelsim_script_line[of _ s] vlog_line_sv file_ext_dot file_ext_not_vhd
    modelsim_sources_concat
  by blast

theorem modelsim_extension_dispatch_witness:
  "file_ext ''/p/tb.sv'' = ''.sv''
   \<and> (\<exists>pre post.
         modelsim_script
           \<lparr>gui = False, cwd = [''work''], name = ''modelsim'', worklib = ''worklib'',
            top' = ''tb'', sources = [''/p/tb.sv'', ''/p/pkg.vhd'', ''/p/dut.v''],
            defines = [''WIDTH=8''], params = [''N=4''], incdirs = [''/p/inc''],
            stdout = [], retcode = 0, sim_errors = []\<rparr>
         = pre @ vlog_line ''+define+WIDTH=8'' ''+incdir+/p/inc'' ''/p/tb.sv'' @ post
         \<and> (suffix ''\<newline>'' pre \<or> suffix ''\<newline>            '' pre))"
  (is "_ \<and> (\<exists>pre post. modelsim_script ?s = _ \<and> _)")
proof -
  have ext: "file_ext ''/p/tb.sv'' = ''.sv''"
    by code_simp
  have mem: "''/p/tb.sv'' \<in> set (sources ?s)"
    by simp
  have "\<forall>src \<in> set (sources ?s). file_ext src = ''.sv'' \<or> file_ext src = ''.v'' \<longrightarrow>
      (\<exists>pre post.
         modelsim_script ?s = pre @ vlog_line (modelsim_defines ?s) (modelsim_incdirs ?s) src @ post
         \<and> (suffix ''\<newline>'' pre \<or> suffix ''\<newline>            '' pre))"
    using modelsim_extension_dispatch[of ?s] by (rule conjunct1)
  from bspec[OF this mem] ext
  have "\<exists>pre post.
         modelsim_script ?s = pre @ vlog_line (modelsim_defines ?s) (modelsim_incdirs ?s) ''/p/tb.sv'' @ post
         \<and> (suffix ''\<newline>'' pre \<or> suffix ''\<newline>            '' pre)"
    by blast
  moreover have "modelsim_defines ?s = ''+define+WIDTH=8''" "modelsim_incdirs ?s = ''+incdir+/p/inc''"
    by (simp_all add: modelsim_defines_def modelsim_incdirs_def)
  ultimately show ?thesis using ext by simp
qed

section \<open>Vivado adapter: properties\<close>

lemma vivado_write_prj_fs:
  "vivado_write_prj s w = Inr w' \<Longrightarrow>
   write_text (path_join (cwd s) ''files.prj'') (vivado_sources (sources s) []) (fs w) = Inr (fs w')"
  by (auto simp: vivado_write_prj_def vivado_banner_def Let_def print_def split: sum.splits)

lemma vivado_write_prj_succeeds:
  "is_dir (fs w) (cwd s) \<Longrightarrow> \<not> is_dir (fs w) (path_join (cwd s) ''files.prj'') \<Longrightarrow>
   \<exists>u. vivado_write_prj s w = Inr u"
  using write_text_succeeds[of "fs w" "path_join (cwd s) ''files.prj''" "vivado_sources (sources s) []"]
  by (auto simp: vivado_write_prj_def vivado_banner_def Let_def print_def path_join_def
      split: sum.splits)

text \<open>
  Claim C5, as the code has it. For every source list, the file \<open>files.prj\<close> the Vivado
  adapter writes is made of one piece per source, in the order of the source list: the
  line \<open>sv work <path>\<close> for a source with extension \<open>.sv\<close>, the line
  \<open>verilog work <path>\<close> for a source with extension \<open>.v\<close>, and nothing for a source
  whose extension is none of \<open>.sv\<close>, \<open>.v\<close> and \<open>.vhd\<close>; the library is always \<open>work\<close>.
  What a source with extension \<open>.vhd\<close> adds is left open. The file is written whenever
  the working directory exists and \<open>files.prj\<close> is not a directory.
\<close>

theorem vivado_project_file:
  "(vivado_write_prj s w = Inr w' \<longrightarrow>
      (\<exists>contrib.
         lookup (fs w') (path_join (cwd s) ''files.prj'') = Some (File (concat (map contrib (sources s))))
         \<and> (\<forall>src. file_ext src = ''.sv'' \<longrightarrow> contrib src = ''sv work '' @ src @ ''\<newline>'')
         \<and> (\<forall>src. file_ext src = ''.v'' \<longrightarrow> contrib src = ''verilog work '' @ src @ ''\<newline>'')
         \<and> (\<forall>src. file_ext src \<notin> set [''.sv'', ''.v'', ''.vhd''] \<longrightarrow> contrib src = [])))
   \<and> (is_dir (fs w) (cwd s) \<and> \<not> is_dir (fs w) (path_join (cwd s) ''files.prj'') \<longrightarrow>
        (\<exists>u. vivado_write_prj s w = Inr u))"
proof (intro conjI impI)
  let ?c = "\<lambda>src. if file_ext src = ''.sv'' then ''sv work '' @ src @ ''\<newline>''
                    else if file_ext src = ''.v'' then ''verilog work '' @ src @ ''\<newline>''
                    else []"
  assume "vivado_write_prj s w = Inr w'"
  then have "write_text (path_join (cwd s) ''files.prj'') (vivado_sources (sources s) []) (fs w) = Inr (fs w')"
    by (rule vivado_write_prj_fs)
  from write_text_lookup[OF this]
  have "lookup (fs w') (path_join (cwd s) ''files.prj'') = Some (File (concat (map ?c (sources s))))"
    by (simp add: vivado_sources_concat)
  moreover have "\<forall>src. file_ext src = ''.sv'' \<longrightarrow> ?c src = ''sv work '' @ src @ ''\<newline>''"
    by simp
  moreover have "\<forall>src. file_ext src = ''.v'' \<longrightarrow> ?c src = ''verilog work '' @ src @ ''\<newline>''"
    by simp
  moreover have "\<forall>src. file_ext src \<notin> set [''.sv'', ''.v'', ''.vhd''] \<longrightarrow> ?c src = []"
    by simp
  ultimately show "\<exists>contrib.
         lookup (fs w') (path_join (cwd s) ''files.prj'') = Some (File (concat (map contrib (sources s))))
         \<and> (\<forall>src. file_ext src = ''.sv'' \<longrightarrow> contrib src = ''sv work '' @ src @ ''\<newline>'')
         \<and> (\<forall>src. file_ext src = ''.v'' \<longrightarrow> contrib src = ''verilog work '' @ src @ ''\<newline>'')
         \<and> (\<forall>src. file_ext src \<notin> set [''.sv'', ''.v'', ''.vhd''] \<longrightarrow> contrib src = [])"
    by (intro exI[of _ ?c]) blast
next
  assume "is_dir (fs w) (cwd s) \<and> \<not> is_dir (fs w) (path_join (cwd s) ''files.prj'')"
  then show "\<exists>u. vivado_write_prj s w = Inr u"
    by (simp add: vivado_write_prj_succeeds)
qed

theorem vivado_project_file_witness:
  "vivado_write_prj
        \<lparr>gui = False, cwd = [''work''], name = ''vivado'', worklib = ''worklib'', top' = ''tb'',
         sources = [''/p/tb.sv'', ''/p/pkg.vhd'', ''/p/notes.txt'', ''/p/dut.v''], defines = [''SIM''],
         params = [], incdirs = [], stdout = [], retcode = 0, sim_errors = []\<rparr>
        \<lparr>fs = Dir [(''work'', Dir [])], console = [], kills = 0\<rparr>
      = Inr \<lparr>fs = Dir [(''work'', Dir [(''files.prj'',
                       File ''sv work /p/tb.sv\<newline>verilog work /p/dut.v\<newline>'')])],
              console = [''Run Vivado (cwd=/work)'', ''SIM'', []], kills = 0\<rparr>
   \<and> (\<exists>vhdl. lookup (Dir [(''work'', Dir [(''files.prj'',
                       File ''sv work /p/tb.sv\<newline>verilog work /p/dut.v\<newline>'')])])
                [''work'', ''files.prj'']
              = Some (File (''sv work /p/tb.sv\<newline>'' @ vhdl @ ''verilog work /p/dut.v\<newline>'')))"
  (is "vivado_write_prj ?s ?w = Inr ?w' \<and> _")
proof -
  have ext: "file_ext ''/p/tb.sv'' = ''.sv''" "file_ext ''/p/dut.v'' = ''.v''"
    "file_ext ''/p/notes.txt'' = ''.txt''" "file_ext ''/p/pkg.vhd'' = ''.vhd''"
    by code_simp+
  have run: "vivado_write_prj ?s ?w = Inr ?w'"
    by (simp add: vivado_write_prj_def vivado_banner_def Let_def print_def path_join_def
        write_text_def str_path_def ext)
  from vivado_project_file[of ?s ?w ?w'] run
  obtain contrib where
    c: "lookup (fs ?w') (path_join (cwd ?s) ''files.prj'') = Some (File (concat (map contrib (sources ?s))))"
    and sv: "\<forall>src. file_ext src = ''.sv'' \<longrightarrow> contrib src = ''sv work '' @ src @ ''\<newline>''"
    and v: "\<forall>src. file_ext src = ''.v'' \<longrightarrow> contrib src = ''verilog work '' @ src @ ''\<newline>''"
    and other: "\<forall>src. file_ext src \<notin> set [''.sv'', ''.v'', ''.vhd''] \<longrightarrow> contrib src = []"
    by blast
  from sv ext have c1: "contrib ''/p/tb.sv'' = ''sv work /p/tb.sv\<newline>''" by simp
  from v ext have c2: "contrib ''/p/dut.v'' = ''verilog work /p/dut.v\<newline>''" by simp
  from other ext have c3: "contrib ''/p/notes.txt'' = []" by simp
  have pj: "path_join (cwd ?s) ''files.prj'' = [''work'', ''files.prj'']"
    by (simp add: path_join_def)
  have srcs: "concat (map contrib (sources ?s))
      = ''sv work /p/tb.sv\<newline>'' @ contrib ''/p/pkg.vhd'' @ ''verilog work /p/dut.v\<newline>''"
    by (simp only: simulator.simps list.map concat.simps c1 c2 c3 append_Nil append_Nil2 append_assoc)
  from c have f: "lookup (fs ?w') [''work'', ''files.prj'']
       = Some (File (''sv work /p/tb.sv\<newline>'' @ contrib ''/p/pkg.vhd'' @ ''verilog work /p/dut.v\<newline>''))"
    by (simp only: pj srcs)
  have "\<exists>vhdl. lookup (fs ?w') [''work'', ''files.prj'']
       = Some (File (''sv work /p/tb.sv\<newline>'' @ vhdl @ ''verilog work /p/dut.v\<newline>''))"
  proof (rule exI)
    show "lookup (fs ?w') [''work'', ''files.prj'']
       = Some (File (''sv work /p/tb.sv\<newline>'' @ contrib ''/p/pkg.vhd'' @ ''verilog work /p/dut.v\<newline>''))"
      by (fact f)
  qed
  with run show ?thesis by (simp only: world.simps)
qed

text \<open>
  Claim C5 as stated fails: of the two sources \<open>/p/top.sv\<close> and \<open>/p/notes.txt\<close> only the
  first gets a line in \<open>files.prj\<close>.
\<close>

theorem vivado_project_file_counterexample:
  "vivado_write_prj
        \<lparr>gui = False, cwd = [''work''], name = ''vivado'', worklib = ''worklib'', top' = ''tb'',
         sources = [''/p/top.sv'', ''/p/notes.txt''], defines = [], params = [],
         incdirs = [], stdout = [], retcode = 0, sim_errors = []\<rparr>
        \<lparr>fs = Dir [(''work'', Dir [])], console = [], kills = 0\<rparr>
      = Inr \<lparr>fs = Dir [(''work'', Dir [(''files.prj'', File ''sv work /p/top.sv\<newline>'')])],
              console = [''Run Vivado (cwd=/work)'', [], []], kills = 0\<rparr>
   \<and> \<not> sublist ''/p/notes.txt'' ''sv work /p/top.sv\<newline>''"
proof -
  have ext: "file_ext ''/p/top.sv'' = ''.sv''" "file_ext ''/p/notes.txt'' = ''.txt''"
    by code_simp+
  show ?thesis
    by (simp add: vivado_write_prj_def vivado_banner_def Let_def print_def path_join_def write_text_def str_path_def ext
        str_in_sublist[symmetric])
qed

section \<open>Process runner: properties\<close>

lemma find_marker_None:
  "find (\<lambda>err. str_in err out) errs = None \<longleftrightarrow> (\<forall>err \<in> set errs. \<not> sublist err out)"
  by (auto simp: find_None_iff str_in_sublist)

text \<open>Lines that neither end the loop nor hold a marker are echoed and passed over.\<close>

lemma read_loop_append:
  assumes "\<forall>(l, e) \<in> set pre. \<not> (strip l = [] \<and> e) \<and> (\<forall>err \<in> set (sim_errors s). \<not> sublist err (strip l))"
  shows "read_loop s (pre @ rest) w =
           read_loop s rest (w\<lparr>console := console w @ filter (\<lambda>l. l \<noteq> []) (map (\<lambda>(l, e). strip l) pre)\<rparr>)"
  using assms
proof (induction pre arbitrary: w)
  case Nil
  show ?case by simp
next
  case (Cons obs pre)
  obtain l e where obs: "obs = (l, e)" by (cases obs)
  from Cons.prems obs have stop: "\<not> (strip l = [] \<and> e)"
    and none: "find (\<lambda>err. str_in err (strip l)) (sim_errors s) = None"
    by (simp_all add: find_marker_None)
  from Cons.prems have rest: "\<forall>(l, e) \<in> set pre. \<not> (strip l = [] \<and> e)
      \<and> (\<forall>err \<in> set (sim_errors s). \<not> sublist err (strip l))"
    by simp
  show ?case
    using stop none Cons.IH[OF rest] by (auto simp: obs Let_def print_def)
qed

lemma read_loop_marker:
  assumes "find (\<lambda>err. sublist err (strip line)) (sim_errors s) = Some m" and "strip line \<noteq> []"
  shows "read_loop s ((line, exited) # rest) w =
           Some (Some (AssertionError (replace m [] (strip line)) (defines s)), w\<lparr>kills := kills w + 1\<rparr>)"
  using assms by (simp add: Let_def str_in_sublist)

lemma read_loop_quiet:
  assumes "\<forall>(l, e) \<in> set obs. \<forall>err \<in> set (sim_errors s). \<not> sublist err (strip l)"
    and "\<exists>(l, e) \<in> set obs. strip l = [] \<and> e"
  shows "\<exists>w'. read_loop s obs w = Some (None, w') \<and> kills w' = kills w \<and> fs w' = fs w"
  using assms
proof (induction obs arbitrary: w)
  case Nil
  then show ?case by simp
next
  case (Cons ob obs)
  obtain l e where ob: "ob = (l, e)" by (cases ob)
  from Cons.prems(1) ob have none: "find (\<lambda>err. str_in err (strip l)) (sim_errors s) = None"
    by (simp add: find_marker_None)
  show ?case
  proof (cases "strip l = [] \<and> e")
    case True
    then show ?thesis by (simp add: ob)
  next
    case False
    with Cons.prems(2) ob have ex: "\<exists>(l, e) \<in> set obs. strip l = [] \<and> e" by auto
    from Cons.prems(1) have all: "\<forall>(l, e) \<in> set obs. \<forall>err \<in> set (sim_errors s). \<not> sublist err (strip l)"
      by simp
    from Cons.IH[OF all ex, of "if strip l \<noteq> [] then print (strip l) w else w"]
    show ?thesis using False none by (auto simp: ob Let_def print_def)
  qed
qed

lemma marker_line_not_empty:
  assumes "find (\<lambda>err. sublist err out) errs = Some m" and "[] \<notin> set errs"
  shows "out \<noteq> []"
proof
  assume "out = []"
  from find_SomeD[OF assms(1)] have "sublist m out" "m \<in> set errs" by simp_all
  with \<open>out = []\<close> assms(2) show False by auto
qed

lemma exec_marker:
  assumes "[] \<notin> set (sim_errors s)"
    and "\<forall>(l, e) \<in> set pre. \<not> (strip l = [] \<and> e) \<and> (\<forall>err \<in> set (sim_errors s). \<not> sublist err (strip l))"
    and "find (\<lambda>err. sublist err (strip line)) (sim_errors s) = Some m"
  shows "exec s w prog args \<lparr>reads = pre @ (line, exited) # rest, returncode = rc\<rparr>
       = Some (Some (AssertionError (replace m [] (strip line)) (defines s)), s,
               w\<lparr>console := console w @ [prog @ '' '' @ args]
                               @ filter (\<lambda>l. l \<noteq> []) (map (\<lambda>(l, e). strip l) pre),
                  kills := kills w + 1\<rparr>)"
proof -
  from marker_line_not_empty[OF assms(3) assms(1)] have ne: "strip line \<noteq> []" .
  have "read_loop s (pre @ (line, exited) # rest) (print (prog @ '' '' @ args) w)
          = Some (Some (AssertionError (replace m [] (strip line)) (defines s)),
               w\<lparr>console := console w @ [prog @ '' '' @ args]
                               @ filter (\<lambda>l. l \<noteq> []) (map (\<lambda>(l, e). strip l) pre),
                  kills := kills w + 1\<rparr>)"
    unfolding read_loop_append[OF assms(2)] read_loop_marker[OF assms(3) ne]
    by (simp add: print_def)
  then show ?thesis
    by (simp add: exec_def Let_def)
qed

lemma exec_quiet:
  assumes "\<forall>(l, e) \<in> set (reads ch). \<forall>err \<in> set (sim_errors s). \<not> sublist err (strip l)"
    and "\<exists>(l, e) \<in> set (reads ch). strip l = [] \<and> e"
  shows "\<exists>w'. exec s w prog args ch =
            Some (if returncode ch \<noteq> 0
                  then Some (RuntimeError (if name s = ''vivado'' then CmdStr (prog @ '' '' @ args)
                                           else CmdList (split_ws (prog @ '' '' @ args)))
                              (returncode ch))
                  else None,
                  s\<lparr>retcode := returncode ch\<rparr>, w')
          \<and> kills w' = kills w"
proof -
  from read_loop_quiet[OF assms, of "print (prog @ '' '' @ args) w"]
  obtain w' where "read_loop s (reads ch) (print (prog @ '' '' @ args) w) = Some (None, w')"
    and "kills w' = kills (print (prog @ '' '' @ args) w)"
    by blast
  then show ?thesis
    by (auto simp: exec_def Let_def print_def)
qed

text \<open>
  Claim C1, as the code has it. The runner scans the line with its leading and trailing
  whitespace stripped. With the fixed markers, when the loop reaches a line (no earlier
  line has ended the loop or held a marker) whose stripped text holds one of the markers,
  the runner kills the child and raises \<open>AssertionError\<close> with the stripped text from
  which every occurrence of the first marker it holds, in the order of the marker list,
  is removed, and with the define list; what the child writes after that line changes
  nothing, and only the earlier non-empty lines have been echoed. For the line
  \<open>ERROR: something bad\<close> the message is \<open>something bad\<close>.
\<close>

theorem exec_error_marker:
  "(sim_errors s = [''$error : '', ''Error: '', ''ERROR: '', ''Assertion error'']
      \<and> (\<forall>(l, e) \<in> set pre. \<not> (strip l = [] \<and> e)
            \<and> (\<forall>err \<in> set (sim_errors s). \<not> sublist err (strip l)))
      \<and> err \<in> set (sim_errors s) \<and> sublist err (strip line)
    \<longrightarrow> (\<exists>m. find (\<lambda>err. sublist err (strip line)) (sim_errors s) = Some m
           \<and> exec s w prog args \<lparr>reads = pre @ (line, exited) # rest, returncode = rc\<rparr>
               = Some (Some (AssertionError (replace m [] (strip line)) (defines s)), s,
                       w\<lparr>console := console w @ [prog @ '' '' @ args]
                                       @ filter (\<lambda>l. l \<noteq> []) (map (\<lambda>(l, e). strip l) pre),
                          kills := kills w + 1\<rparr>)))
   \<and> (sim_errors s = [''$error : '', ''Error: '', ''ERROR: '', ''Assertion error'']
    \<longrightarrow> exec s w prog args \<lparr>reads = (''ERROR: something bad\<newline>'', exited) # rest, returncode = rc\<rparr>
          = Some (Some (AssertionError ''something bad'' (defines s)), s,
                  w\<lparr>console := console w @ [prog @ '' '' @ args], kills := kills w + 1\<rparr>))"
proof (intro conjI impI)
  assume h: "sim_errors s = [''$error : '', ''Error: '', ''ERROR: '', ''Assertion error'']
      \<and> (\<forall>(l, e) \<in> set pre. \<not> (strip l = [] \<and> e)
            \<and> (\<forall>err \<in> set (sim_errors s). \<not> sublist err (strip l)))
      \<and> err \<in> set (sim_errors s) \<and> sublist err (strip line)"
  then have ne: "[] \<notin> set (sim_errors s)" by simp
  from h have "find (\<lambda>err. sublist err (strip line)) (sim_errors s) \<noteq> None"
    unfolding find_None_iff by blast
  then obtain m where m: "find (\<lambda>err. sublist err (strip line)) (sim_errors s) = Some m"
    by blast
  from h have quiet: "\<forall>(l, e) \<in> set pre. \<not> (strip l = [] \<and> e)
            \<and> (\<forall>err \<in> set (sim_errors s). \<not> sublist err (strip l))"
    by blast
  from exec_marker[OF ne quiet m, of w prog args exited rest rc] m
  show "\<exists>m. find (\<lambda>err. sublist err (strip line)) (sim_errors s) = Some m
           \<and> exec s w prog args \<lparr>reads = pre @ (line, exited) # rest, returncode = rc\<rparr>
               = Some (Some (AssertionError (replace m [] (strip line)) (defines s)), s,
                       w\<lparr>console := console w @ [prog @ '' '' @ args]
                                       @ filter (\<lambda>l. l \<noteq> []) (map (\<lambda>(l, e). strip l) pre),
                          kills := kills w + 1\<rparr>)"
    by blast
next
  assume se: "sim_errors s = [''$error : '', ''Error: '', ''ERROR: '', ''Assertion error'']"
  then have ne: "[] \<notin> set (sim_errors s)" by simp
  have st: "strip ''ERROR: something bad\<newline>'' = ''ERROR: something bad''"
    by code_simp
  have "find (\<lambda>err. sublist err ''ERROR: something bad'')
          [''$error : '', ''Error: '', ''ERROR: '', ''Assertion error''] = Some ''ERROR: ''"
    by code_simp
  with se st have m: "find (\<lambda>err. sublist err (strip ''ERROR: something bad\<newline>'')) (sim_errors s)
      = Some ''ERROR: ''"
    by simp
  have rp: "replace ''ERROR: '' [] ''ERROR: something bad'' = ''something bad''"
    by code_simp
  have quiet: "\<forall>(l, e) \<in> set []. \<not> (strip l = [] \<and> e)
            \<and> (\<forall>err \<in> set (sim_errors s). \<not> sublist err (strip l))"
    by simp
  from exec_marker[OF ne quiet m, of w prog args exited rest rc]
  show "exec s w prog args \<lparr>reads = (''ERROR: something bad\<newline>'', exited) # rest, returncode = rc\<rparr>
          = Some (Some (AssertionError ''something bad'' (defines s)), s,
                  w\<lparr>console := console w @ [prog @ '' '' @ args], kills := kills w + 1\<rparr>)"
    by (simp add: st rp)
qed

theorem exec_error_marker_witness:
  "exec \<lparr>gui = False, cwd = [''work''], name = ''icarus'', worklib = ''worklib'', top' = ''top'',
      sources = [], defines = [''SIM''], params = [], incdirs = [], stdout = [], retcode = 0,
      sim_errors = [''$error : '', ''Error: '', ''ERROR: '', ''Assertion error'']\<rparr>
     \<lparr>fs = Dir [], console = [], kills = 0\<rparr> ''vvp'' ''worklib.vvp -lxt2''
     \<lparr>reads = [(''compiling\<newline>'', False), (''\<newline>'', False)]
                @ (''** Error: bad width\<newline>'', False) # [(''more\<newline>'', False)],
      returncode = 0\<rparr>
   = Some (Some (AssertionError ''** bad width'' [''SIM'']),
      \<lparr>gui = False, cwd = [''work''], name = ''icarus'', worklib = ''worklib'', top' = ''top'',
      sources = [], defines = [''SIM''], params = [], incdirs = [], stdout = [], retcode = 0,
      sim_errors = [''$error : '', ''Error: '', ''ERROR: '', ''Assertion error'']\<rparr>,
      \<lparr>fs = Dir [], console = [''vvp worklib.vvp -lxt2'', ''compiling''], kills = 1\<rparr>)"
  (is "exec ?s ?w ?prog ?args \<lparr>reads = ?pre @ (?line, False) # ?rest, returncode = 0\<rparr> = _")
proof -
  have se: "sim_errors ?s = [''$error : '', ''Error: '', ''ERROR: '', ''Assertion error'']"
    by simp
  have quiet: "\<forall>(l, e) \<in> set ?pre. \<not> (strip l = [] \<and> e)
            \<and> (\<forall>err \<in> set (sim_errors ?s). \<not> sublist err (strip l))"
    by code_simp
  have mem: "''Error: '' \<in> set (sim_errors ?s)"
    by simp
  have sub: "sublist ''Error: '' (strip ?line)"
    by code_simp
  have fnd: "find (\<lambda>err. sublist err (strip ?line)) (sim_errors ?s) = Some ''Error: ''"
    by code_simp
  have rp: "replace ''Error: '' [] (strip ?line) = ''** bad width''"
    by code_simp
  have echo: "filter (\<lambda>l. l \<noteq> []) (map (\<lambda>(l, e). strip l) ?pre) = [''compiling'']"
    by code_simp
  from exec_error_marker[of ?s ?pre "''Error: ''" ?line ?w ?prog ?args False ?rest 0]
    se quiet mem sub
  obtain m where "find (\<lambda>err. sublist err (strip ?line)) (sim_errors ?s) = Some m"
    and "exec ?s ?w ?prog ?args \<lparr>reads = ?pre @ (?line, False) # ?rest, returncode = 0\<rparr>
               = Some (Some (AssertionError (replace m [] (strip ?line)) (defines ?s)), ?s,
                       ?w\<lparr>console := console ?w @ [?prog @ '' '' @ ?args]
                                       @ filter (\<lambda>l. l \<noteq> []) (map (\<lambda>(l, e). strip l) ?pre),
                          kills := kills ?w + 1\<rparr>)"
    by blast
  with fnd rp echo show ?thesis
    by simp
qed

text \<open>
  Claim C1 as stated fails: the line \<open>ERROR: \<close> followed by a newline holds the marker
  \<open>ERROR: \<close>, but stripped it is \<open>ERROR:\<close>, which holds none; the runner echoes it and
  returns normally.
\<close>

theorem exec_error_marker_counterexample:
  "sublist ''ERROR: '' ''ERROR: \<newline>''
   \<and> exec \<lparr>gui = False, cwd = [''work''], name = ''icarus'', worklib = ''worklib'', top' = ''top'',
      sources = [], defines = [''SIM''], params = [], incdirs = [], stdout = [], retcode = 0,
      sim_errors = [''$error : '', ''Error: '', ''ERROR: '', ''Assertion error'']\<rparr>
     \<lparr>fs = Dir [], console = [], kills = 0\<rparr> ''vvp'' ''worklib.vvp -lxt2''
     \<lparr>reads = [(''ERROR: \<newline>'', False), ([], True)], returncode = 0\<rparr>
   = Some (None,
      \<lparr>gui = False, cwd = [''work''], name = ''icarus'', worklib = ''worklib'', top' = ''top'',
      sources = [], defines = [''SIM''], params = [], incdirs = [], stdout = [], retcode = 0,
      sim_errors = [''$error : '', ''Error: '', ''ERROR: '', ''Assertion error'']\<rparr>,
      \<lparr>fs = Dir [], console = [''vvp worklib.vvp -lxt2'', ''ERROR:''], kills = 0\<rparr>)"
  by code_simp

text \<open>
  Claim C2 does not hold of the code. The loop ends at the first line that is empty once
  stripped, read when the child has exited: a blank line, not only the end of the
  stream. Here the child has written \<open>a\<close>, a blank line and \<open>ERROR: bad\<close>, and has
  exited by the time the blank line is read: the runner returns normally and the third
  line is never scanned. Had the child still been running at the blank line, the third
  line would have raised.
\<close>

theorem exec_blank_line_ends_loop:
  "exec \<lparr>gui = False, cwd = [''work''], name = ''icarus'', worklib = ''worklib'', top' = ''top'',
      sources = [], defines = [''SIM''], params = [], incdirs = [], stdout = [], retcode = 0,
      sim_errors = [''$error : '', ''Error: '', ''ERROR: '', ''Assertion error'']\<rparr>
     \<lparr>fs = Dir [], console = [], kills = 0\<rparr> ''vvp'' ''worklib.vvp -lxt2''
     \<lparr>reads = [(''a\<newline>'', False), (''\<newline>'', True), (''ERROR: bad\<newline>'', True), ([], True)],
      returncode = 0\<rparr>
   = Some (None,
      \<lparr>gui = False, cwd = [''work''], name = ''icarus'', worklib = ''worklib'', top' = ''top'',
      sources = [], defines = [''SIM''], params = [], incdirs = [], stdout = [], retcode = 0,
      sim_errors = [''$error : '', ''Error: '', ''ERROR: '', ''Assertion error'']\<rparr>,
      \<lparr>fs = Dir [], console = [''vvp worklib.vvp -lxt2'', ''a''], kills = 0\<rparr>)
   \<and> exec \<lparr>gui = False, cwd = [''work''], name = ''icarus'', worklib = ''worklib'', top' = ''top'',
      sources = [], defines = [''SIM''], params = [], incdirs = [], stdout = [], retcode = 0,
      sim_errors = [''$error : '', ''Error: '', ''ERROR: '', ''Assertion error'']\<rparr>
     \<lparr>fs = Dir [], console = [], kills = 0\<rparr> ''vvp'' ''worklib.vvp -lxt2''
     \<lparr>reads = [(''a\<newline>'', False), (''\<newline>'', False), (''ERROR: bad\<newline>'', True), ([], True)],
      returncode = 0\<rparr>
   = Some (Some (AssertionError ''bad'' [''SIM'']),
      \<lparr>gui = False, cwd = [''work''], name = ''icarus'', worklib = ''worklib'', top' = ''top'',
      sources = [], defines = [''SIM''], params = [], incdirs = [], stdout = [], retcode = 0,
      sim_errors = [''$error : '', ''Error: '', ''ERROR: '', ''Assertion error'']\<rparr>,
      \<lparr>fs = Dir [], console = [''vvp worklib.vvp -lxt2'', ''a''], kills = 1\<rparr>)"
  by code_simp

text \<open>
  Claim C3, as the code has it. When no line of the child's output holds a marker, and
  the child exits (the loop reads an empty line once the child has exited), the runner
  returns: with a non-zero return code it raises \<open>RuntimeError\<close> naming the command and
  that code, with the code zero it returns normally; the return code is stored and the
  child is not killed. The command named is the command string for Vivado and the list
  of the words of the command string for the other tools.
\<close>

theorem exec_return_code:
  "(\<forall>(l, e) \<in> set (reads ch). \<forall>err \<in> set (sim_errors s). \<not> sublist err (strip l))
     \<and> (\<exists>(l, e) \<in> set (reads ch). strip l = [] \<and> e)
   \<longrightarrow> (\<exists>w'. exec s w prog args ch =
            Some (if returncode ch \<noteq> 0
                  then Some (RuntimeError (if name s = ''vivado'' then CmdStr (prog @ '' '' @ args)
                                           else CmdList (split_ws (prog @ '' '' @ args)))
                              (returncode ch))
                  else None,
                  s\<lparr>retcode := returncode ch\<rparr>, w')
          \<and> kills w' = kills w)"
  using exec_quiet[of ch s w prog args] by blast

theorem exec_return_code_witness:
  "\<exists>w'. exec \<lparr>gui = False, cwd = [''work''], name = ''icarus'', worklib = ''worklib'', top' = ''top'',
      sources = [], defines = [''SIM''], params = [], incdirs = [], stdout = [], retcode = 0,
      sim_errors = [''$error : '', ''Error: '', ''ERROR: '', ''Assertion error'']\<rparr>
     \<lparr>fs = Dir [], console = [], kills = 0\<rparr> ''vvp'' ''worklib.vvp -lxt2''
     \<lparr>reads = [(''done\<newline>'', False), ([], True)], returncode = 2\<rparr>
   = Some (Some (RuntimeError (CmdList [''vvp'', ''worklib.vvp'', ''-lxt2'']) 2),
      \<lparr>gui = False, cwd = [''work''], name = ''icarus'', worklib = ''worklib'', top' = ''top'',
      sources = [], defines = [''SIM''], params = [], incdirs = [], stdout = [], retcode = 2,
      sim_errors = [''$error : '', ''Error: '', ''ERROR: '', ''Assertion error'']\<rparr>, w')
     \<and> kills w' = 0"
  (is "\<exists>w'. exec ?s ?w ?prog ?args ?ch = _ \<and> _")
proof -
  have quiet: "\<forall>(l, e) \<in> set (reads ?ch). \<forall>err \<in> set (sim_errors ?s). \<not> sublist err (strip l)"
    by code_simp
  have ends: "\<exists>(l, e) \<in> set (reads ?ch). strip l = [] \<and> e"
    by code_simp
  have cmd: "split_ws ''vvp worklib.vvp -lxt2'' = [''vvp'', ''worklib.vvp'', ''-lxt2'']"
    by code_simp
  from exec_return_code[of ?ch ?s ?w ?prog ?args] quiet ends
  obtain w' where "exec ?s ?w ?prog ?args ?ch =
            Some (if returncode ?ch \<noteq> 0
                  then Some (RuntimeError (if name ?s = ''vivado'' then CmdStr (?prog @ '' '' @ ?args)
                                           else CmdList (split_ws (?prog @ '' '' @ ?args)))
                              (returncode ?ch))
                  else None,
                  ?s\<lparr>retcode := returncode ?ch\<rparr>, w')" and "kills w' = kills ?w"
    by blast
  then show ?thesis
    by (simp add: cmd)
qed

text \<open>
  Claim C3 as stated fails: for a tool other than Vivado the error does not carry the
  command string. The commands \<open>vvp a    b\<close> and \<open>vvp a b\<close> are different strings and
  give the same error, which carries the words \<open>vvp\<close>, \<open>a\<close>, \<open>b\<close>.
\<close>

theorem exec_return_code_counterexample:
  "exec \<lparr>gui = False, cwd = [''work''], name = ''icarus'', worklib = ''worklib'', top' = ''top'',
      sources = [], defines = [''SIM''], params = [], incdirs = [], stdout = [], retcode = 0,
      sim_errors = [''$error : '', ''Error: '', ''ERROR: '', ''Assertion error'']\<rparr>
     \<lparr>fs = Dir [], console = [], kills = 0\<rparr> ''vvp'' ''a    b''
     \<lparr>reads = [(''done\<newline>'', False), ([], True)], returncode = 2\<rparr>
   = Some (Some (RuntimeError (CmdList [''vvp'', ''a'', ''b'']) 2),
      \<lparr>gui = False, cwd = [''work''], name = ''icarus'', worklib = ''worklib'', top' = ''top'',
      sources = [], defines = [''SIM''], params = [], incdirs = [], stdout = [], retcode = 2,
      sim_errors = [''$error : '', ''Error: '', ''ERROR: '', ''Assertion error'']\<rparr>,
      \<lparr>fs = Dir [], console = [''vvp a    b'', ''done''], kills = 0\<rparr>)
   \<and> exec \<lparr>gui = False, cwd = [''work''], name = ''icarus'', worklib = ''worklib'', top' = ''top'',
      sources = [], defines = [''SIM''], params = [], incdirs = [], stdout = [], retcode = 0,
      sim_errors = [''$error : '', ''Error: '', ''ERROR: '', ''Assertion error'']\<rparr>
     \<lparr>fs = Dir [], console = [], kills = 0\<rparr> ''vvp'' ''a b''
     \<lparr>reads = [(''done\<newline>'', False), ([], True)], returncode = 2\<rparr>
   = Some (Some (RuntimeError (CmdList [''vvp'', ''a'', ''b'']) 2),
      \<lparr>gui = False, cwd = [''work''], name = ''icarus'', worklib = ''worklib'', top' = ''top'',
      sources = [], defines = [''SIM''], params = [], incdirs = [], stdout = [], retcode = 2,
      sim_errors = [''$error : '', ''Error: '', ''ERROR: '', ''Assertion error'']\<rparr>,
      \<lparr>fs = Dir [], console = [''vvp a b'', ''done''], kills = 0\<rparr>)"
  by code_simp

section \<open>Workspace setup: properties\<close>

lemma remove_all:
  "(case n of File c \<Rightarrow> remove_tree_node n = Inr (Some n) | Dir cs \<Rightarrow> remove_tree_node n = Inr None)"
  "remove_children es = Inr []"
  by (induction n and es rule: remove_tree_node_remove_children.induct)
     (auto split: node.splits)

lemma remove_tree_node_Dir: "remove_tree_node (Dir es) = Inr None"
  using remove_all(1)[of "Dir es"] by simp

lemma is_dir_put_parent:
  "p \<noteq> [] \<Longrightarrow> is_dir t (butlast p) \<Longrightarrow> is_dir (put p v t) (butlast p)"
proof (induction p v t rule: put.induct)
  case (4 x y ys v es)
  then show ?case
    by (auto simp: is_dir_def update_conv' split: option.splits node.splits if_splits)
qed (auto simp: is_dir_def split: option.splits node.splits if_splits)

lemma put_None_put_Some:
  "p \<noteq> [] \<Longrightarrow> lookup t p = None \<Longrightarrow> is_dir t (butlast p) \<Longrightarrow> put p None (put p (Some n) t) = t"
proof (induction p "Some n" t rule: put.induct)
  case (3 x es)
  then have "x \<notin> fst ` set es"
    by (auto simp: map_of_eq_None_iff split: option.splits)
  then show ?case
    by (simp add: delete_update_same)
next
  case (4 x y ys es)
  then obtain c where c: "map_of es x = Some c"
    by (auto simp: is_dir_def split: option.splits)
  with 4 have "put (y # ys) None (put (y # ys) (Some n) c) = c"
    by (auto simp: is_dir_def split: option.splits)
  with c show ?case
    by (simp add: update_conv' update_triv)
qed (auto simp: is_dir_def)

lemma make_dir_fresh:
  assumes "p \<noteq> []" and "lookup t p = None" and "is_dir t (butlast p)"
  shows "make_dir p t = Inr (put p (Some (Dir [])) t)"
  using assms not_blocked[of p t]
  by (auto simp: make_dir_def is_dir_def split: option.splits node.splits)

lemma remove_tree_absent: "lookup t p = None \<Longrightarrow> remove_tree p t = Inr t"
  by (simp add: remove_tree_def)

lemma remove_tree_dir:
  "p \<noteq> [] \<Longrightarrow> lookup t p = Some (Dir es) \<Longrightarrow> remove_tree p t = Inr (put p None t)"
  by (simp add: remove_tree_def remove_all(2))

text \<open>Setting up a workspace where nothing stands: the directory is made, and a second
  setup gives the same file system.\<close>

lemma workspace_setup_fresh:
  assumes "p \<noteq> []" and "lookup t p = None" and "is_dir t (butlast p)"
  shows "workspace_setup p t = Inr (put p (Some (Dir [])) t)"
    and "lookup (put p (Some (Dir [])) t) p = Some (Dir [])"
    and "workspace_setup p (put p (Some (Dir [])) t) = Inr (put p (Some (Dir [])) t)"
proof -
  let ?t' = "put p (Some (Dir [])) t"
  show "workspace_setup p t = Inr ?t'"
    using assms by (simp add: workspace_setup_def remove_tree_absent make_dir_fresh)
  from assms(3) obtain es where "lookup t (butlast p) = Some (Dir es)"
    by (auto simp: is_dir_def split: option.splits node.splits)
  then show l: "lookup ?t' p = Some (Dir [])"
    by (intro lookup_put_Some) blast
  have undo: "put p None ?t' = t"
    using assms by (rule put_None_put_Some)
  from remove_tree_dir[OF assms(1) l] have "remove_tree p ?t' = Inr t"
    by (simp add: undo)
  then show "workspace_setup p ?t' = Inr ?t'"
    using assms by (simp add: workspace_setup_def make_dir_fresh)
qed

lemma workspace_setup_idem:
  assumes "p \<noteq> []" and "is_dir t (butlast p)" and "lookup t p = None \<or> is_dir t p"
  shows "\<exists>t'. workspace_setup p t = Inr t' \<and> lookup t' p = Some (Dir [])
              \<and> workspace_setup p t' = Inr t'"
proof (cases "lookup t p")
  case None
  from workspace_setup_fresh[OF assms(1) None assms(2)] show ?thesis by blast
next
  case (Some n)
  with assms(3) obtain es where dir: "lookup t p = Some (Dir es)"
    by (auto simp: is_dir_def split: node.splits)
  let ?t1 = "put p None t"
  have rm: "remove_tree p t = Inr ?t1"
    using assms(1) dir by (rule remove_tree_dir)
  have gone: "lookup ?t1 p = None"
    using assms(1) by (rule lookup_put_None)
  have parent: "is_dir ?t1 (butlast p)"
    using assms(1,2) by (rule is_dir_put_parent)
  from workspace_setup_fresh[OF assms(1) gone parent] rm
  have "workspace_setup p t = Inr (put p (Some (Dir [])) ?t1)"
    by (simp add: workspace_setup_def make_dir_fresh[OF assms(1) gone parent])
  with workspace_setup_fresh(2,3)[OF assms(1) gone parent] show ?thesis by blast
qed

text \<open>
  Claim C8, as the code has it. For a path other than the root whose parent is an
  existing directory and which is itself absent or a directory, whatever files and
  nested subdirectories it holds, the workspace setup succeeds and leaves an empty
  directory at the path; run again, it succeeds again and leaves the file system as the
  first run left it.
\<close>

theorem workspace_setup_idempotent:
  "p \<noteq> [] \<and> is_dir t (butlast p) \<and> (lookup t p = None \<or> is_dir t p)
   \<longrightarrow> (\<exists>t'. workspace_setup p t = Inr t' \<and> lookup t' p = Some (Dir [])
              \<and> workspace_setup p t' = Inr t')"
  using workspace_setup_idem[of p t] by blast

theorem workspace_setup_idempotent_witness:
  "workspace_setup [''home'', ''work'']
     (Dir [(''home'', Dir [(''work'', Dir [(''a.txt'', File ''x''),
                                          (''sub'', Dir [(''b'', File []), (''deep'', Dir [])])]),
                          (''keep'', File ''k'')])])
     = Inr (Dir [(''home'', Dir [(''keep'', File ''k''), (''work'', Dir [])])])
   \<and> lookup (Dir [(''home'', Dir [(''keep'', File ''k''), (''work'', Dir [])])]) [''home'', ''work'']
       = Some (Dir [])
   \<and> workspace_setup [''home'', ''work'']
       (Dir [(''home'', Dir [(''keep'', File ''k''), (''work'', Dir [])])])
     = Inr (Dir [(''home'', Dir [(''keep'', File ''k''), (''work'', Dir [])])])"
  (is "workspace_setup ?p ?t = Inr ?t' \<and> _ \<and> _")
proof -
  have first: "workspace_setup ?p ?t = Inr ?t'"
    by code_simp
  have pre: "?p \<noteq> [] \<and> is_dir ?t (butlast ?p) \<and> (lookup ?t ?p = None \<or> is_dir ?t ?p)"
    by (simp add: is_dir_def)
  from workspace_setup_idempotent[of ?p ?t] pre
  obtain t' where "workspace_setup ?p ?t = Inr t'" and "lookup t' ?p = Some (Dir [])"
    and "workspace_setup ?p t' = Inr t'"
    by blast
  with first show ?thesis by simp
qed

text \<open>
  Claim C8 as stated fails: for the path \<open>/a/work\<close> in a file system without \<open>/a\<close>, the
  setup raises \<open>FileNotFoundError\<close> and leaves no directory.
\<close>

theorem workspace_setup_idempotent_counterexample:
  "workspace_setup [''a'', ''work''] (Dir []) = Inl FileNotFoundError"
  by code_simp

end
